theory Spec2Isabelle
  imports Complex_Main "HOL-Library.Sublist"
begin

section \<open>Strings and the regular expressions of the server\<close>

text \<open>
  The server (server.ts) works on JavaScript strings. They are modelled as HOL strings
  (lists of characters); every pattern of the code that is embedded here inspects ASCII
  characters only.
\<close>

definition is_digit :: "char \<Rightarrow> bool" where
  "is_digit c = (c \<in> set ''0123456789'')"

definition is_lower :: "char \<Rightarrow> bool" where
  "is_lower c = (c \<in> set ''abcdefghijklmnopqrstuvwxyz'')"

text \<open>
  A pattern is embedded as a matcher: at a position of the subject (the rest of the string
  from there) it returns the length of the match that starts there, if there is one.
  A string pattern matches itself.
\<close>

type_synonym matcher = "string \<Rightarrow> nat option"

definition lit :: "string \<Rightarrow> matcher" where
  "lit p s = (if prefix p s then Some (length p) else None)"

text \<open>
  \<^verbatim>\<open>/v\d+-[a-z]+\.douyinvod\.com/\<close>: the letter v, the longest run of digits (one at
  least), a hyphen, the longest run of lower-case letters (one at least), and the literal
  host suffix. A digit is never a hyphen and a letter is never a dot, so giving back
  characters of a greedy run never yields a match: the match is the greedy one or none.
\<close>

definition douyinvod_re :: matcher where
  "douyinvod_re s =
     (case s of
        [] \<Rightarrow> None
      | c # s1 \<Rightarrow>
          if c \<noteq> CHR ''v'' then None
          else if takeWhile is_digit s1 = [] then None
          else (case dropWhile is_digit s1 of
                  [] \<Rightarrow> None
                | d # s3 \<Rightarrow>
                    if d \<noteq> CHR ''-'' then None
                    else if takeWhile is_lower s3 = [] then None
                    else if prefix ''.douyinvod.com'' (dropWhile is_lower s3)
                    then Some (1 + length (takeWhile is_digit s1) + 1
                               + length (takeWhile is_lower s3) + 14)
                    else None))"

text \<open>
  \<^verbatim>\<open>subject.replace(/pattern/g, replacement)\<close> for a pattern that matches no empty
  string and a replacement without dollar signs: scan from the left, replace each match
  and go on behind it, copy every other character.
\<close>

function replace_all :: "matcher \<Rightarrow> string \<Rightarrow> string \<Rightarrow> string" where
  "replace_all m rep [] = []"
| "replace_all m rep (c # cs) =
     (case m (c # cs) of
        None \<Rightarrow> c # replace_all m rep cs
      | Some n \<Rightarrow>
          if 0 < n then rep @ replace_all m rep (drop n (c # cs))
          else c # replace_all m rep cs)"
  by pat_completeness auto
termination
  by (relation "measure (\<lambda>(m, rep, s). length s)") auto

text \<open>\<^verbatim>\<open>subject.replace('pat', 'rep')\<close> with a string pattern: the first occurrence only.\<close>

fun replace_first :: "string \<Rightarrow> string \<Rightarrow> string \<Rightarrow> string" where
  "replace_first pat rep [] = (if pat = [] then rep else [])"
| "replace_first pat rep (c # cs) =
     (if prefix pat (c # cs) then rep @ drop (length pat) (c # cs)
      else c # replace_first pat rep cs)"

text \<open>\<^verbatim>\<open>subject.includes(pat)\<close>.\<close>

fun str_includes :: "string \<Rightarrow> string \<Rightarrow> bool" where
  "str_includes [] pat = (pat = [])"
| "str_includes (c # cs) pat = (prefix pat (c # cs) \<or> str_includes cs pat)"

section \<open>DomainNormalizer\<close>

text \<open>\<^verbatim>\<open>DOMAIN_REPLACEMENTS\<close>: the fixed table of (pattern, replacement host).\<close>

definition DOMAIN_REPLACEMENTS :: "(matcher \<times> string) list" where
  "DOMAIN_REPLACEMENTS =
     [(lit ''aweme.snssdk.com'', ''www.douyin.com''),
      (lit ''api-h2.amemv.com'', ''www.douyin.com''),
      (lit ''api.amemv.com'', ''www.douyin.com''),
      (douyinvod_re, ''www.douyin.com'')]"

text \<open>\<^verbatim>\<open>normalizeVideoUrl\<close>: every rule of the table once, in order.\<close>

definition normalizeVideoUrl :: "string \<Rightarrow> string" where
  "normalizeVideoUrl url =
     foldl (\<lambda>normalized (pattern, replacement). replace_all pattern replacement normalized)
       url DOMAIN_REPLACEMENTS"

section \<open>JavaScript values\<close>

text \<open>
  The values that \<^verbatim>\<open>JSON.parse\<close> and axios hand to the server, and \<^verbatim>\<open>undefined\<close>,
  which reading a missing property yields. An object is the list of its own properties
  in the order of \<^verbatim>\<open>Object.keys\<close> (a JavaScript object has each key once; a lookup
  takes the first binding). A number is a rational; the code only tests numbers for
  being zero or positive.
\<close>

datatype jsval =
    JUndef
  | JNull
  | JBool bool
  | JNum rat
  | JStr string
  | JArr "jsval list"
  | JObj "(string \<times> jsval) list"

datatype error = TypeError | SyntaxError | URIError | AxiosError | RangeError

text \<open>What \<^verbatim>\<open>if (v)\<close>, \<^verbatim>\<open>!v\<close>, \<^verbatim>\<open>&&\<close> and \<^verbatim>\<open>||\<close> test.\<close>

definition truthy :: "jsval \<Rightarrow> bool" where
  "truthy v =
     (case v of
        JUndef \<Rightarrow> False
      | JNull \<Rightarrow> False
      | JBool b \<Rightarrow> b
      | JNum n \<Rightarrow> n \<noteq> 0
      | JStr s \<Rightarrow> s \<noteq> []
      | JArr xs \<Rightarrow> True
      | JObj kvs \<Rightarrow> True)"

text \<open>\<^verbatim>\<open>a || b\<close>.\<close>

definition js_or :: "jsval \<Rightarrow> jsval \<Rightarrow> jsval" where
  "js_or a b = (if truthy a then a else b)"

text \<open>\<^verbatim>\<open>typeof v === 'object'\<close> (true of \<^verbatim>\<open>null\<close> as well).\<close>

definition typeof_object :: "jsval \<Rightarrow> bool" where
  "typeof_object v =
     (case v of JNull \<Rightarrow> True | JArr xs \<Rightarrow> True | JObj kvs \<Rightarrow> True | _ \<Rightarrow> False)"

text \<open>
  \<^verbatim>\<open>v?.key\<close> for the property names the server reads (none of them is an array index
  or a method): \<^verbatim>\<open>undefined\<close> on \<^verbatim>\<open>null\<close> and \<^verbatim>\<open>undefined\<close>, the own property of an
  object, the length of an array or a string, \<^verbatim>\<open>undefined\<close> otherwise.
  \<^verbatim>\<open>v.key\<close> is the same, but throws on \<^verbatim>\<open>null\<close> and \<^verbatim>\<open>undefined\<close>.
\<close>

definition get_opt :: "jsval \<Rightarrow> string \<Rightarrow> jsval" where
  "get_opt v key =
     (case v of
        JObj kvs \<Rightarrow> (case map_of kvs key of Some x \<Rightarrow> x | None \<Rightarrow> JUndef)
      | JArr xs \<Rightarrow> (if key = ''length'' then JNum (of_nat (length xs)) else JUndef)
      | JStr s \<Rightarrow> (if key = ''length'' then JNum (of_nat (length s)) else JUndef)
      | _ \<Rightarrow> JUndef)"

definition get_prop :: "jsval \<Rightarrow> string \<Rightarrow> error + jsval" where
  "get_prop v key = (if v = JUndef \<or> v = JNull then Inl TypeError else Inr (get_opt v key))"

text \<open>\<^verbatim>\<open>v?.[0]\<close> and \<^verbatim>\<open>v[0]\<close>.\<close>

definition first_opt :: "jsval \<Rightarrow> jsval" where
  "first_opt v =
     (case v of
        JArr xs \<Rightarrow> (case xs of [] \<Rightarrow> JUndef | x # rest \<Rightarrow> x)
      | JStr s \<Rightarrow> (case s of [] \<Rightarrow> JUndef | c # rest \<Rightarrow> JStr [c])
      | JObj kvs \<Rightarrow> (case map_of kvs ''0'' of Some x \<Rightarrow> x | None \<Rightarrow> JUndef)
      | _ \<Rightarrow> JUndef)"

definition first_elem :: "jsval \<Rightarrow> error + jsval" where
  "first_elem v = (if v = JUndef \<or> v = JNull then Inl TypeError else Inr (first_opt v))"

text \<open>
  \<^verbatim>\<open>v > 0\<close>. For \<^verbatim>\<open>undefined\<close>, \<^verbatim>\<open>null\<close>, booleans and numbers the comparison is
  written out. A string, an array or an object is first converted to a number by the
  engine; that conversion is a parameter (\<open>None\<close>: it throws a TypeError, as for an
  object whose \<^verbatim>\<open>toString\<close> property is not a function).
\<close>

definition js_gt0 :: "(jsval \<Rightarrow> bool option) \<Rightarrow> jsval \<Rightarrow> error + bool" where
  "js_gt0 to_number_gt0 v =
     (case v of
        JUndef \<Rightarrow> Inr False
      | JNull \<Rightarrow> Inr False
      | JBool b \<Rightarrow> Inr b
      | JNum n \<Rightarrow> Inr (0 < n)
      | _ \<Rightarrow> (case to_number_gt0 v of None \<Rightarrow> Inl TypeError | Some b \<Rightarrow> Inr b))"

text \<open>
  \<^verbatim>\<open>v.replace('playwm', 'play')\<close>: a method of strings only; on any other value the call
  throws a TypeError.
\<close>

definition unwatermark :: "jsval \<Rightarrow> error + jsval" where
  "unwatermark v =
     (case v of
        JStr s \<Rightarrow> Inr (JStr (replace_first ''playwm'' ''play'' s))
      | _ \<Rightarrow> Inl TypeError)"

section \<open>DeepStructureSearch\<close>

record vrec =
  videoSrc :: jsval
  coverSrc :: jsval
  desc :: jsval

text \<open>
  The three blocks of \<^verbatim>\<open>findVideoInObject\<close>, for an argument that is an object or an
  array. Each returns \<open>Inr None\<close> when its condition is false, \<open>Inr (Some r)\<close> when it
  returns the record \<open>r\<close>, and \<open>Inl e\<close> when it throws.
\<close>

definition shape_playApi :: "jsval \<Rightarrow> error + vrec option" where
  "shape_playApi obj =
     (let video = get_opt obj ''video''; playApi = get_opt video ''playApi'' in
      if truthy video \<and> truthy playApi then
        (case playApi of
           JStr s \<Rightarrow>
             Inr (Some \<lparr>
               videoSrc = JStr (if prefix ''http'' s then s else ''https:'' @ s),
               coverSrc =
                 js_or (first_opt (get_opt (get_opt video ''cover'') ''urlList''))
                   (js_or (first_opt (get_opt (get_opt video ''dynamicCover'') ''urlList''))
                      (JStr [])),
               desc = js_or (get_opt obj ''desc'') (JStr [])\<rparr>)
         | _ \<Rightarrow> Inl TypeError)
      else Inr None)"

definition shape_play_addr :: "(jsval \<Rightarrow> bool option) \<Rightarrow> jsval \<Rightarrow> error + vrec option" where
  "shape_play_addr to_number_gt0 obj =
     (let video = get_opt obj ''video''; play_addr = get_opt video ''play_addr'';
          url_list = get_opt play_addr ''url_list'' in
      if truthy video \<and> truthy play_addr then
        (case js_gt0 to_number_gt0 (get_opt url_list ''length'') of
           Inl e \<Rightarrow> Inl e
         | Inr False \<Rightarrow> Inr None
         | Inr True \<Rightarrow>
             (case unwatermark (first_opt url_list) of
                Inl e \<Rightarrow> Inl e
              | Inr src \<Rightarrow>
                  Inr (Some \<lparr>
                    videoSrc = src,
                    coverSrc =
                      js_or (first_opt (get_opt (get_opt video ''cover'') ''url_list''))
                        (JStr []),
                    desc = js_or (get_opt obj ''desc'') (JStr [])\<rparr>)))
      else Inr None)"

definition shape_download_addr ::
  "(jsval \<Rightarrow> bool option) \<Rightarrow> jsval \<Rightarrow> error + vrec option" where
  "shape_download_addr to_number_gt0 obj =
     (let video = get_opt obj ''video''; download_addr = get_opt video ''download_addr'';
          url_list = get_opt download_addr ''url_list'' in
      if truthy video \<and> truthy download_addr then
        (case js_gt0 to_number_gt0 (get_opt url_list ''length'') of
           Inl e \<Rightarrow> Inl e
         | Inr False \<Rightarrow> Inr None
         | Inr True \<Rightarrow>
             Inr (Some \<lparr>
               videoSrc = first_opt url_list,
               coverSrc =
                 js_or (first_opt (get_opt (get_opt video ''cover'') ''url_list''))
                   (JStr []),
               desc = js_or (get_opt obj ''desc'') (JStr [])\<rparr>))
      else Inr None)"

text \<open>The three blocks in the order of the source: the first that returns or throws wins.\<close>

definition match_shapes :: "(jsval \<Rightarrow> bool option) \<Rightarrow> jsval \<Rightarrow> error + vrec option" where
  "match_shapes to_number_gt0 obj =
     (case shape_playApi obj of
        Inl e \<Rightarrow> Inl e
      | Inr (Some r) \<Rightarrow> Inr (Some r)
      | Inr None \<Rightarrow>
          (case shape_play_addr to_number_gt0 obj of
             Inl e \<Rightarrow> Inl e
           | Inr (Some r) \<Rightarrow> Inr (Some r)
           | Inr None \<Rightarrow> shape_download_addr to_number_gt0 obj))"

text \<open>\<^verbatim>\<open>Object.keys(obj).map(key => obj[key])\<close> for an object or an array.\<close>

definition children :: "jsval \<Rightarrow> jsval list" where
  "children obj = (case obj of JArr xs \<Rightarrow> xs | JObj kvs \<Rightarrow> map snd kvs | _ \<Rightarrow> [])"

text \<open>
  \<^verbatim>\<open>findVideoInObject\<close>. The loop over the keys is \<open>find_in_children\<close>: it returns the
  first child result that is not \<^verbatim>\<open>null\<close> and whose \<^verbatim>\<open>videoSrc\<close> is truthy; a throw in
  a child leaves the loop and the function.
\<close>

fun findVideoInObject :: "(jsval \<Rightarrow> bool option) \<Rightarrow> jsval \<Rightarrow> error + vrec option"
  and find_in_children :: "(jsval \<Rightarrow> bool option) \<Rightarrow> jsval list \<Rightarrow> error + vrec option"
  and find_in_fields ::
    "(jsval \<Rightarrow> bool option) \<Rightarrow> (string \<times> jsval) list \<Rightarrow> error + vrec option"
where
  "findVideoInObject g (JObj kvs) =
     (case match_shapes g (JObj kvs) of
        Inl e \<Rightarrow> Inl e
      | Inr (Some r) \<Rightarrow> Inr (Some r)
      | Inr None \<Rightarrow> find_in_fields g kvs)"
| "findVideoInObject g (JArr xs) =
     (case match_shapes g (JArr xs) of
        Inl e \<Rightarrow> Inl e
      | Inr (Some r) \<Rightarrow> Inr (Some r)
      | Inr None \<Rightarrow> find_in_children g xs)"
| "findVideoInObject g JUndef = Inr None"
| "findVideoInObject g JNull = Inr None"
| "findVideoInObject g (JBool b) = Inr None"
| "findVideoInObject g (JNum n) = Inr None"
| "findVideoInObject g (JStr s) = Inr None"
| "find_in_children g [] = Inr None"
| "find_in_children g (x # xs) =
     (case findVideoInObject g x of
        Inl e \<Rightarrow> Inl e
      | Inr None \<Rightarrow> find_in_children g xs
      | Inr (Some r) \<Rightarrow> if truthy (videoSrc r) then Inr (Some r) else find_in_children g xs)"
| "find_in_fields g [] = Inr None"
| "find_in_fields g ((key, x) # kvs) =
     (case findVideoInObject g x of
        Inl e \<Rightarrow> Inl e
      | Inr None \<Rightarrow> find_in_fields g kvs
      | Inr (Some r) \<Rightarrow> if truthy (videoSrc r) then Inr (Some r) else find_in_fields g kvs)"

section \<open>DeepStructureSearch and the call stack\<close>

text \<open>
  \<^verbatim>\<open>findVideoInObject\<close> sets no bound on the depth of its recursion. The engine does:
  every call takes room on the call stack, and a call for which no room is left throws a
  RangeError (\<^verbatim>\<open>Maximum call stack size exceeded\<close>), which \<^verbatim>\<open>findVideoInObject\<close> does
  not catch. The room is a parameter of the embedding below: \<open>stack\<close> is the number of
  nested calls of \<^verbatim>\<open>findVideoInObject\<close> that the call stack admits from here on. The
  embedding above is the same function on a stack that is never used up.
\<close>



section \<open>DeepStructureSearch over object graphs\<close>

text \<open>
  \<^verbatim>\<open>findVideoInObject\<close> takes any JavaScript value. In memory an object is reached through
  a reference, and an object can refer to itself, which no \<open>jsval\<close> tree can. To speak
  about such arguments the function is embedded once more over a heap: a value is a
  primitive or a reference, and the heap maps a reference to the array or object that
  lives there. The recursion is again bounded by the call stack only.
\<close>

datatype gval =
    GUndef
  | GNull
  | GBool bool
  | GNum rat
  | GStr string
  | GRef nat

datatype gobj =
    GArray "gval list"
  | GObject "(string \<times> gval) list"

type_synonym heap = "nat \<Rightarrow> gobj"















section \<open>VideoIdExtractor\<close>

text \<open>
  \<^verbatim>\<open>url.match(/\/video\/(\d+)/)\<close> and its two siblings: the leftmost place where the
  literal is followed by a digit; the capture is the longest run of digits there.
\<close>

fun capture_digits_after :: "string \<Rightarrow> string \<Rightarrow> string option" where
  "capture_digits_after pat [] = None"
| "capture_digits_after pat (c # cs) =
     (if prefix pat (c # cs) \<and> takeWhile is_digit (drop (length pat) (c # cs)) \<noteq> []
      then Some (takeWhile is_digit (drop (length pat) (c # cs)))
      else capture_digits_after pat cs)"

definition extractVideoId :: "string \<Rightarrow> string option" where
  "extractVideoId url =
     (case capture_digits_after ''/video/'' url of
        Some videoMatch \<Rightarrow> Some videoMatch
      | None \<Rightarrow>
          (case capture_digits_after ''/note/'' url of
             Some noteMatch \<Rightarrow> Some noteMatch
           | None \<Rightarrow> capture_digits_after ''modal_id='' url))"

section \<open>The library and the network\<close>

text \<open>
  What the server calls and does not define is a parameter of the model. The library:
  the engine's conversion to a number, \<^verbatim>\<open>new URL(location, base).href\<close>, \<^verbatim>\<open>JSON.parse\<close>,
  \<^verbatim>\<open>decodeURIComponent\<close> and \<^verbatim>\<open>cheerio.load\<close> (\<open>None\<close>: the call throws), and the
  regular expressions that are not written out above (\<open>None\<close>: no match; otherwise
  the text the code takes from the match: \<^verbatim>\<open>match[0]\<close> for the URL and the mp4
  patterns, the capture group \<^verbatim>\<open>match[1]\<close> for the others).
\<close>

record dom =
  render_data :: "string option option"
  scripts :: "string option list"

text \<open>
  \<open>render_data\<close> is \<open>None\<close> when \<^verbatim>\<open>$('#RENDER_DATA')\<close> selects nothing, otherwise what
  \<^verbatim>\<open>.html()\<close> returns for it (a string or \<^verbatim>\<open>null\<close>); \<open>scripts\<close> holds what \<^verbatim>\<open>.html()\<close>
  returns for every script element, in document order.
\<close>

record jslib =
  to_number_gt0 :: "jsval \<Rightarrow> bool option"
  URL_href :: "string \<Rightarrow> string \<Rightarrow> string option"
  JSON_parse :: "string \<Rightarrow> jsval option"
  decodeURIComponent :: "string \<Rightarrow> string option"
  cheerio_load :: "jsval \<Rightarrow> dom option"
  match_url :: "string \<Rightarrow> string option"
  match_router_data :: "string \<Rightarrow> string option"
  match_next_f :: "string \<Rightarrow> string option"
  match_playApi :: "string \<Rightarrow> string option"
  match_play_addr :: "string \<Rightarrow> string option"
  match_playAddr :: "string \<Rightarrow> string option"
  match_mp4 :: "string \<Rightarrow> string option"

text \<open>
  The network. A request is the endpoint and the URL; the log is the list of the
  requests issued so far, oldest first. An answer may depend on the whole log, so a
  server may answer the same URL differently each time.
\<close>

datatype endpoint =
    ManualHop
  | AutoFollow
  | DetailApi
  | DesktopPage
  | MobilePage
  | ItemInfoApi
  | CdnHead

type_synonym request = "endpoint \<times> string"

type_synonym log = "request list"

text \<open>
  The answer to \<^verbatim>\<open>axios.get(currentUrl, {maxRedirects: 0, validateStatus: 2xx})\<close>:
  a 2xx response with the two places where the request object may report the URL it
  ended at (\<^verbatim>\<open>resp.request?.res?.responseUrl\<close>, \<^verbatim>\<open>resp.request?.responseURL\<close>), or a
  throw whose error carries, when there was a response at all, its status and its
  \<^verbatim>\<open>location\<close> header.
\<close>

datatype manual_resp =
    Manual2xx "string option" "string option"
  | ManualThrew "(nat \<times> string option) option"

text \<open>
  The answer to \<^verbatim>\<open>axios.get(shortUrl, {maxRedirects: 10})\<close>: a response with the same two
  places, or a throw with \<^verbatim>\<open>err.request?.res?.responseUrl\<close> and
  \<^verbatim>\<open>err.response?.headers?.['location']\<close>.
\<close>

datatype auto_resp =
    AutoOk "string option" "string option"
  | AutoThrew "string option" "string option"

record world =
  manual_get :: "log \<Rightarrow> string \<Rightarrow> manual_resp"
  auto_get :: "log \<Rightarrow> string \<Rightarrow> auto_resp"
  http_get :: "log \<Rightarrow> request \<Rightarrow> jsval option"
  http_head :: "log \<Rightarrow> string \<Rightarrow> nat option"

text \<open>
  \<open>http_get\<close> answers the four data requests with \<^verbatim>\<open>response.data\<close> and \<open>http_head\<close>
  answers \<^verbatim>\<open>axios.head\<close> with the status; \<open>None\<close>: the call throws.
\<close>

text \<open>\<^verbatim>\<open>a || fallback\<close> for a string \<open>a\<close> that may be missing: the empty string is falsy.\<close>

definition str_or :: "string option \<Rightarrow> string \<Rightarrow> string" where
  "str_or a fallback = (case a of None \<Rightarrow> fallback | Some s \<Rightarrow> if s = [] then fallback else s)"

section \<open>ShortLinkResolver\<close>

record resolved =
  finalUrl :: string
  videoId :: "string option"

text \<open>
  One iteration of the loop of \<^verbatim>\<open>resolveShortUrl\<close>, the \<^verbatim>\<open>try\<close> block and its
  \<^verbatim>\<open>catch\<close>: it returns from the function, throws out of the function (an exception
  inside the \<^verbatim>\<open>catch\<close> block: \<^verbatim>\<open>new URL\<close> refuses the location), breaks the loop, or
  continues it with the next URL.
\<close>

datatype hop =
    HopReturn resolved
  | HopRaise error
  | HopBreak
  | HopContinue string

definition manual_hop :: "jslib \<Rightarrow> world \<Rightarrow> string \<Rightarrow> log \<Rightarrow> hop" where
  "manual_hop L W currentUrl lg =
     (case manual_get W lg currentUrl of
        Manual2xx responseUrl responseURL \<Rightarrow>
          (case extractVideoId currentUrl of
             Some vid \<Rightarrow> HopReturn \<lparr>finalUrl = currentUrl, videoId = Some vid\<rparr>
           | None \<Rightarrow>
               (let respUrl = str_or responseUrl (str_or responseURL []) in
                if respUrl \<noteq> [] then
                  (case extractVideoId respUrl of
                     Some idFromResp \<Rightarrow>
                       HopReturn \<lparr>finalUrl = respUrl, videoId = Some idFromResp\<rparr>
                   | None \<Rightarrow> HopReturn \<lparr>finalUrl = currentUrl, videoId = None\<rparr>)
                else HopReturn \<lparr>finalUrl = currentUrl, videoId = None\<rparr>))
      | ManualThrew None \<Rightarrow> HopBreak
      | ManualThrew (Some (status, header)) \<Rightarrow>
          if 300 \<le> status \<and> status < 400 \<and> str_or header [] \<noteq> [] then
            (let location = str_or header [] in
             case (if prefix ''http'' location then Some location
                   else URL_href L location currentUrl) of
               None \<Rightarrow> HopRaise TypeError
             | Some nextUrl \<Rightarrow>
                 (case extractVideoId nextUrl of
                    Some vid \<Rightarrow> HopReturn \<lparr>finalUrl = nextUrl, videoId = Some vid\<rparr>
                  | None \<Rightarrow> HopContinue nextUrl))
          else HopBreak)"

text \<open>
  How the loop ends: with a \<^verbatim>\<open>return\<close>, with an exception that leaves the function, or
  by falling out of the loop (\<^verbatim>\<open>break\<close>, or the counter reaching its bound).
\<close>

datatype chase =
    Returned resolved
  | Raised error
  | LoopExit

text \<open>
  The loop \<^verbatim>\<open>for (let i = 0; i < 10; i++)\<close>; the first argument after the parameters is
  the number of iterations left. Every iteration issues one request.
\<close>

fun manual_chase :: "jslib \<Rightarrow> world \<Rightarrow> nat \<Rightarrow> string \<Rightarrow> log \<Rightarrow> chase \<times> log" where
  "manual_chase L W 0 currentUrl lg = (LoopExit, lg)"
| "manual_chase L W (Suc n) currentUrl lg =
     (case manual_hop L W currentUrl lg of
        HopReturn r \<Rightarrow> (Returned r, lg @ [(ManualHop, currentUrl)])
      | HopRaise e \<Rightarrow> (Raised e, lg @ [(ManualHop, currentUrl)])
      | HopBreak \<Rightarrow> (LoopExit, lg @ [(ManualHop, currentUrl)])
      | HopContinue nextUrl \<Rightarrow> manual_chase L W n nextUrl (lg @ [(ManualHop, currentUrl)]))"

definition resolveShortUrl :: "jslib \<Rightarrow> world \<Rightarrow> string \<Rightarrow> log \<Rightarrow> (error + resolved) \<times> log" where
  "resolveShortUrl L W shortUrl lg =
     (case extractVideoId shortUrl of
        Some directId \<Rightarrow> (Inr \<lparr>finalUrl = shortUrl, videoId = Some directId\<rparr>, lg)
      | None \<Rightarrow>
          (case manual_chase L W 10 shortUrl lg of
             (Returned r, lg') \<Rightarrow> (Inr r, lg')
           | (Raised e, lg') \<Rightarrow> (Inl e, lg')
           | (LoopExit, lg') \<Rightarrow>
               (let final =
                      (case auto_get W lg' shortUrl of
                         AutoOk responseUrl responseURL \<Rightarrow>
                           str_or responseUrl (str_or responseURL shortUrl)
                       | AutoThrew responseUrl location \<Rightarrow>
                           str_or responseUrl (str_or location shortUrl))
                in (Inr \<lparr>finalUrl = final, videoId = extractVideoId final\<rparr>,
                    lg' @ [(AutoFollow, shortUrl)]))))"

section \<open>The extraction strategies\<close>

text \<open>
  The handler of \<^verbatim>\<open>POST /api/parse\<close> keeps three variables, \<^verbatim>\<open>videoSrc\<close>,
  \<^verbatim>\<open>coverSrc\<close> and \<^verbatim>\<open>desc\<close>; a \<open>vrec\<close> holds them. The body of the \<^verbatim>\<open>try\<close> block
  of a strategy maps the variables and the request log to their values when the block
  is left, together with the exception that left it, if one did. The \<^verbatim>\<open>catch\<close> block
  only logs: the handler goes on with the variables and drops the exception.
  The random cookies of the requests (\<^verbatim>\<open>generateMsToken\<close>, \<^verbatim>\<open>generateTtwid\<close>) are part of
  the request the network answers and are not modelled.
\<close>

type_synonym strategy_state = "vrec \<times> log"

text \<open>
  \<^verbatim>\<open>if (result && result.videoSrc) { videoSrc = result.videoSrc; coverSrc = result.coverSrc;
  desc = result.desc; }\<close>
\<close>

definition assign_result :: "vrec \<Rightarrow> vrec option \<Rightarrow> vrec" where
  "assign_result vars result =
     (case result of
        None \<Rightarrow> vars
      | Some r \<Rightarrow> if truthy (videoSrc r) then r else vars)"

subsection \<open>Strategy 1: the detail API\<close>

definition strategy1 ::
  "jslib \<Rightarrow> world \<Rightarrow> string \<Rightarrow> strategy_state \<Rightarrow> strategy_state \<times> error option" where
  "strategy1 L W vid st =
     (let vars = fst st; lg = snd st;
          apiUrl = ''https://www.douyin.com/aweme/v1/web/aweme/detail/?aweme_id='' @ vid
                   @ ''&aid=6383&cookie_enabled=true&platform=PC&downlink=10'';
          lg' = lg @ [(DetailApi, apiUrl)] in
      case http_get W lg (DetailApi, apiUrl) of
        None \<Rightarrow> ((vars, lg'), Some AxiosError)
      | Some data \<Rightarrow>
          (let detail = get_opt data ''aweme_detail'' in
           if truthy detail then
             (case findVideoInObject (to_number_gt0 L) detail of
                Inl e \<Rightarrow> ((vars, lg'), Some e)
              | Inr result \<Rightarrow> ((assign_result vars result, lg'), None))
           else ((vars, lg'), None)))"

subsection \<open>Strategy 2: the desktop page\<close>

text \<open>The \<^verbatim>\<open>RENDER_DATA\<close> block; a throw leaves the whole strategy.\<close>

definition render_data_step :: "jslib \<Rightarrow> dom \<Rightarrow> vrec \<Rightarrow> error + vrec" where
  "render_data_step L d vars =
     (case render_data d of
        None \<Rightarrow> Inr vars
      | Some html \<Rightarrow>
          (case decodeURIComponent L (str_or html []) of
             None \<Rightarrow> Inl URIError
           | Some decoded \<Rightarrow>
               (case JSON_parse L decoded of
                  None \<Rightarrow> Inl SyntaxError
                | Some renderData \<Rightarrow>
                    (case findVideoInObject (to_number_gt0 L) renderData of
                       Inl e \<Rightarrow> Inl e
                     | Inr result \<Rightarrow> Inr (assign_result vars result)))))"

text \<open>
  The loop over the two patterns inside the callback of \<^verbatim>\<open>$('script').each\<close>: the inner
  \<^verbatim>\<open>try\<close> swallows what \<^verbatim>\<open>JSON.parse\<close> and \<^verbatim>\<open>findVideoInObject\<close> throw, and a usable
  result returns from the callback.
\<close>

fun try_json_patterns ::
  "jslib \<Rightarrow> (string \<Rightarrow> string option) list \<Rightarrow> string \<Rightarrow> vrec \<Rightarrow> vrec" where
  "try_json_patterns L [] content vars = vars"
| "try_json_patterns L (pattern # rest) content vars =
     (case pattern content of
        None \<Rightarrow> try_json_patterns L rest content vars
      | Some capture \<Rightarrow>
          (case JSON_parse L capture of
             None \<Rightarrow> try_json_patterns L rest content vars
           | Some data \<Rightarrow>
               (case findVideoInObject (to_number_gt0 L) data of
                  Inl e \<Rightarrow> try_json_patterns L rest content vars
                | Inr None \<Rightarrow> try_json_patterns L rest content vars
                | Inr (Some r) \<Rightarrow>
                    if truthy (videoSrc r) then r
                    else try_json_patterns L rest content vars)))"

definition router_script :: "jslib \<Rightarrow> vrec \<Rightarrow> string option \<Rightarrow> vrec" where
  "router_script L vars el =
     (if truthy (videoSrc vars) then vars
      else try_json_patterns L [match_router_data L, match_next_f L] (str_or el []) vars)"

definition strategy2 ::
  "jslib \<Rightarrow> world \<Rightarrow> string \<Rightarrow> strategy_state \<Rightarrow> strategy_state \<times> error option" where
  "strategy2 L W vid st =
     (let vars = fst st; lg = snd st;
          pageUrl = ''https://www.douyin.com/video/'' @ vid;
          lg' = lg @ [(DesktopPage, pageUrl)] in
      case http_get W lg (DesktopPage, pageUrl) of
        None \<Rightarrow> ((vars, lg'), Some AxiosError)
      | Some html \<Rightarrow>
          (case cheerio_load L html of
             None \<Rightarrow> ((vars, lg'), Some TypeError)
           | Some d \<Rightarrow>
               (case render_data_step L d vars of
                  Inl e \<Rightarrow> ((vars, lg'), Some e)
                | Inr vars1 \<Rightarrow>
                    if \<not> truthy (videoSrc vars1)
                    then ((foldl (router_script L) vars1 (scripts d), lg'), None)
                    else ((vars1, lg'), None))))"

subsection \<open>Strategy 3: the mobile page\<close>

definition backslash :: char where
  "backslash = CHR 0x5C"

text \<open>
  What the callback makes of a capture \<^verbatim>\<open>m[1]\<close>: the escaped slashes decoded
  (\<^verbatim>\<open>/\\u002F/g\<close>, then \<^verbatim>\<open>/\\\//g\<close>), the scheme added, the watermark marker replaced.
\<close>

definition decode_slashes :: "string \<Rightarrow> string" where
  "decode_slashes capture =
     replace_all (lit [backslash, CHR ''/'']) ''/''
       (replace_all (lit (backslash # ''u002F'')) ''/'' capture)"

definition with_scheme :: "string \<Rightarrow> string" where
  "with_scheme src =
     (if prefix ''//'' src then ''https:'' @ src
      else if prefix ''http'' src then src
      else ''https:'' @ src)"

definition mobile_src :: "string \<Rightarrow> string" where
  "mobile_src capture = replace_first ''playwm'' ''play'' (with_scheme (decode_slashes capture))"

text \<open>The loop over the three patterns: the first with \<^verbatim>\<open>m && m[1]\<close> breaks the loop.\<close>

fun first_capture :: "(string \<Rightarrow> string option) list \<Rightarrow> string \<Rightarrow> string option" where
  "first_capture [] content = None"
| "first_capture (p # ps) content =
     (case p content of
        None \<Rightarrow> first_capture ps content
      | Some capture \<Rightarrow> if capture \<noteq> [] then Some capture else first_capture ps content)"

definition mobile_script :: "jslib \<Rightarrow> vrec \<Rightarrow> string option \<Rightarrow> vrec" where
  "mobile_script L vars el =
     (if truthy (videoSrc vars) then vars
      else
        (let content = str_or el [] in
         if str_includes content ''playAddr'' \<or> str_includes content ''play_addr''
            \<or> str_includes content ''playApi''
         then
           (case first_capture [match_playApi L, match_play_addr L, match_playAddr L] content of
              None \<Rightarrow> vars
            | Some capture \<Rightarrow> vars\<lparr>videoSrc := JStr (mobile_src capture)\<rparr>)
         else vars))"

definition strategy3 ::
  "jslib \<Rightarrow> world \<Rightarrow> string \<Rightarrow> strategy_state \<Rightarrow> strategy_state \<times> error option" where
  "strategy3 L W vid st =
     (let vars = fst st; lg = snd st;
          mobileUrl = ''https://m.douyin.com/share/video/'' @ vid;
          lg' = lg @ [(MobilePage, mobileUrl)] in
      case http_get W lg (MobilePage, mobileUrl) of
        None \<Rightarrow> ((vars, lg'), Some AxiosError)
      | Some html \<Rightarrow>
          (case cheerio_load L html of
             None \<Rightarrow> ((vars, lg'), Some TypeError)
           | Some d \<Rightarrow>
               (let vars1 = foldl (mobile_script L) vars (scripts d) in
                if \<not> truthy (videoSrc vars1) then
                  (case html of
                     JStr page \<Rightarrow>
                       (case match_mp4 L page of
                          None \<Rightarrow> ((vars1, lg'), None)
                        | Some mp4Match \<Rightarrow> ((vars1\<lparr>videoSrc := JStr mp4Match\<rparr>, lg'), None))
                   | _ \<Rightarrow> ((vars1, lg'), Some TypeError))
                else ((vars1, lg'), None))))"

subsection \<open>Strategy 4: the item-info API\<close>

definition strategy4 ::
  "jslib \<Rightarrow> world \<Rightarrow> string \<Rightarrow> strategy_state \<Rightarrow> strategy_state \<times> error option" where
  "strategy4 L W vid st =
     (let vars = fst st; lg = snd st;
          apiUrl = ''https://www.iesdouyin.com/web/api/v2/aweme/iteminfo/?item_ids='' @ vid;
          lg' = lg @ [(ItemInfoApi, apiUrl)] in
      case http_get W lg (ItemInfoApi, apiUrl) of
        None \<Rightarrow> ((vars, lg'), Some AxiosError)
      | Some data \<Rightarrow>
          (let itemList = get_opt data ''item_list'' in
           if \<not> truthy itemList then ((vars, lg'), None)
           else
             (case js_gt0 (to_number_gt0 L) (get_opt itemList ''length'') of
                Inl e \<Rightarrow> ((vars, lg'), Some e)
              | Inr False \<Rightarrow> ((vars, lg'), None)
              | Inr True \<Rightarrow>
                  (let item = first_opt itemList in
                   case get_prop item ''video'' of
                     Inl e \<Rightarrow> ((vars, lg'), Some e)
                   | Inr video \<Rightarrow>
                       (let first_url =
                              first_opt (get_opt (get_opt video ''play_addr'') ''url_list'') in
                        if truthy first_url then
                          (case unwatermark first_url of
                             Inl e \<Rightarrow> ((vars, lg'), Some e)
                           | Inr src \<Rightarrow>
                               ((\<lparr>videoSrc = src,
                                  coverSrc =
                                    js_or (first_opt (get_opt (get_opt video ''cover'')
                                             ''url_list'')) (JStr []),
                                  desc = js_or (get_opt item ''desc'') (JStr [])\<rparr>, lg'),
                                None))
                        else ((vars, lg'), None))))))"

subsection \<open>Strategy 5: the constructed URL\<close>

definition strategy5 ::
  "jslib \<Rightarrow> world \<Rightarrow> string \<Rightarrow> strategy_state \<Rightarrow> strategy_state \<times> error option" where
  "strategy5 L W vid st =
     (let vars = fst st; lg = snd st;
          cdnUrl = ''https://www.douyin.com/aweme/v1/play/?video_id='' @ vid
                   @ ''&ratio=720p&line=0'';
          lg' = lg @ [(CdnHead, cdnUrl)] in
      case http_head W lg cdnUrl of
        None \<Rightarrow> ((vars, lg'), Some AxiosError)
      | Some status \<Rightarrow>
          if status = 200 then ((vars\<lparr>videoSrc := JStr cdnUrl\<rparr>, lg'), None)
          else ((vars, lg'), None))"

section \<open>ResolutionPipeline\<close>

text \<open>
  What the handler sends: the two 400 answers, the answer with \<^verbatim>\<open>success: false\<close>, the 500
  answer of the outer \<^verbatim>\<open>catch\<close> (with the exception it caught), and the answer with
  \<^verbatim>\<open>success: true\<close> and its data.
\<close>

record payload =
  data_url :: jsval
  data_cover :: jsval
  data_desc :: jsval

datatype response =
    UrlRequired400
  | NoVideoId400
  | AllFailed200
  | Unhandled500 error
  | Success200 payload

text \<open>The placeholder description of the success answer, as its UTF-8 bytes.\<close>

definition DEFAULT_DESC :: string where
  "DEFAULT_DESC = map char_of
     [0xE6, 0x8A, 0x96, 0xE9, 0x9F, 0xB3, 0xE8, 0xA7, 0x86, 0xE9, 0xA2, 0x91 :: nat]"

text \<open>\<^verbatim>\<open>if (!videoSrc) await strategy...\<close>: a strategy runs while no media URL is there.\<close>

definition unless_found ::
  "(strategy_state \<Rightarrow> strategy_state \<times> error option) \<Rightarrow> strategy_state \<Rightarrow> strategy_state" where
  "unless_found strategy st =
     (if \<not> truthy (videoSrc (fst st)) then fst (strategy st) else st)"

text \<open>\<^verbatim>\<open>let videoSrc = ''; let coverSrc = ''; let desc = '';\<close>\<close>

definition init_vars :: vrec where
  "init_vars = \<lparr>videoSrc = JStr [], coverSrc = JStr [], desc = JStr []\<rparr>"

text \<open>The five strategies, from the initial values of the three variables.\<close>

definition run_strategies :: "jslib \<Rightarrow> world \<Rightarrow> string \<Rightarrow> log \<Rightarrow> strategy_state" where
  "run_strategies L W vid lg =
     (let s0 = (init_vars, lg);
          s1 = fst (strategy1 L W vid s0);
          s2 = unless_found (strategy2 L W vid) s1;
          s3 = unless_found (strategy3 L W vid) s2;
          s4 = unless_found (strategy4 L W vid) s3;
          s5 = unless_found (strategy5 L W vid) s4
      in s5)"

text \<open>
  The end of the handler: the failure answer, or the normalised URL. On a value that is
  no string \<^verbatim>\<open>normalizeVideoUrl\<close> throws (\<^verbatim>\<open>normalized.replace\<close> is not a function) and the
  outer \<^verbatim>\<open>catch\<close> answers.
\<close>

definition respond :: "vrec \<Rightarrow> response" where
  "respond vars =
     (if \<not> truthy (videoSrc vars) then AllFailed200
      else
        (case videoSrc vars of
           JStr src \<Rightarrow>
             Success200 \<lparr>data_url = JStr (normalizeVideoUrl src),
                         data_cover = coverSrc vars,
                         data_desc = js_or (desc vars) (JStr DEFAULT_DESC)\<rparr>
         | _ \<Rightarrow> Unhandled500 TypeError))"

text \<open>
  \<^verbatim>\<open>let targetUrl = url; const urlMatch = url.match(...); if (urlMatch) targetUrl =
  urlMatch[0];\<close>
\<close>

definition target_url :: "jslib \<Rightarrow> string \<Rightarrow> string" where
  "target_url L text = (case match_url L text of None \<Rightarrow> text | Some m \<Rightarrow> m)"

text \<open>\<^verbatim>\<open>app.post('/api/parse', ...)\<close> of server.ts, for the request body \<open>body\<close>.\<close>

definition parse_handler :: "jslib \<Rightarrow> world \<Rightarrow> jsval \<Rightarrow> log \<Rightarrow> response \<times> log" where
  "parse_handler L W body lg =
     (case get_prop body ''url'' of
        Inl e \<Rightarrow> (Unhandled500 e, lg)
      | Inr url \<Rightarrow>
          if \<not> truthy url then (UrlRequired400, lg)
          else
            (case url of
               JStr text \<Rightarrow>
                 (case resolveShortUrl L W (target_url L text) lg of
                    (Inl e, lg1) \<Rightarrow> (Unhandled500 e, lg1)
                  | (Inr r, lg1) \<Rightarrow>
                      (case videoId r of
                         None \<Rightarrow> (NoVideoId400, lg1)
                       | Some vid \<Rightarrow>
                           (let st = run_strategies L W vid lg1
                            in (respond (fst st), snd st))))
             | _ \<Rightarrow> (Unhandled500 TypeError, lg)))"

section \<open>Notions used in the statements and proofs\<close>

text \<open>
  \<open>occurs m s\<close>: the pattern \<open>m\<close> matches somewhere in \<open>s\<close>. \<open>clashes q rep\<close>: a
  non-empty end of \<open>q\<close> is a beginning of \<open>rep\<close> or begins with \<open>rep\<close>, so that a
  match of \<open>q\<close> could run into an inserted \<open>rep\<close>.
\<close>

fun clashes :: "string \<Rightarrow> string \<Rightarrow> bool" where
  "clashes [] rep = False"
| "clashes (c # q) rep = (prefix (c # q) rep \<or> prefix rep (c # q) \<or> clashes q rep)"

fun occurs :: "matcher \<Rightarrow> string \<Rightarrow> bool" where
  "occurs m [] = False"
| "occurs m (c # cs) = (m (c # cs) \<noteq> None \<or> occurs m cs)"

definition av_matcher :: "matcher \<Rightarrow> bool" where
  "av_matcher m = (\<forall>s n. m s = Some n \<longrightarrow> (\<exists>cs. s = CHR ''a'' # cs \<or> s = CHR ''v'' # cs))"

definition starts_outside :: "matcher \<Rightarrow> string \<Rightarrow> bool" where
  "starts_outside m rep = (\<forall>s. m s \<noteq> None \<longrightarrow> s \<noteq> [] \<and> hd s \<notin> set rep)"

definition stable_under :: "matcher \<Rightarrow> string \<Rightarrow> matcher \<Rightarrow> bool" where
  "stable_under m rep m' = (\<forall>s. m' (replace_all m rep s) \<noteq> None \<longrightarrow> m' s \<noteq> None)"

definition domain_clean :: "string \<Rightarrow> bool" where
  "domain_clean s = (\<forall>(m, rep) \<in> set DOMAIN_REPLACEMENTS. \<not> occurs m s)"

text \<open>
  The search in the words of the specification. \<open>candidates g node\<close> lists, in the
  order of a depth-first traversal that does not descend below a node that matches, what
  the shape check yields at every matching node. A candidate is usable when it is an
  exception or a record with a truthy \<^verbatim>\<open>videoSrc\<close>.
\<close>

fun candidates :: "(jsval \<Rightarrow> bool option) \<Rightarrow> jsval \<Rightarrow> (error + vrec) list" where
  "candidates g (JObj kvs) =
     (case match_shapes g (JObj kvs) of
        Inl e \<Rightarrow> [Inl e]
      | Inr (Some r) \<Rightarrow> [Inr r]
      | Inr None \<Rightarrow> concat (map (\<lambda>(key, x). candidates g x) kvs))"
| "candidates g (JArr xs) =
     (case match_shapes g (JArr xs) of
        Inl e \<Rightarrow> [Inl e]
      | Inr (Some r) \<Rightarrow> [Inr r]
      | Inr None \<Rightarrow> concat (map (candidates g) xs))"
| "candidates g v = []"

definition usable :: "error + vrec \<Rightarrow> bool" where
  "usable c = (case c of Inl e \<Rightarrow> True | Inr r \<Rightarrow> truthy (videoSrc r))"

definition first_usable_of :: "(error + vrec) list \<Rightarrow> error + vrec option" where
  "first_usable_of cs =
     (case List.find usable cs of
        None \<Rightarrow> Inr None
      | Some (Inl e) \<Rightarrow> Inl e
      | Some (Inr r) \<Rightarrow> Inr (Some r))"

definition DeepStructureSearch :: "(jsval \<Rightarrow> bool option) \<Rightarrow> jsval \<Rightarrow> error + vrec option" where
  "DeepStructureSearch g node =
     (if \<not> truthy node \<or> \<not> typeof_object node then Inr None
      else
        (case match_shapes g node of
           Inl e \<Rightarrow> Inl e
         | Inr (Some r) \<Rightarrow> Inr (Some r)
         | Inr None \<Rightarrow> first_usable_of (concat (map (candidates g) (children node)))))"

text \<open>
  A JSON tree laid out in a store. \<open>repr h v t\<close>: the value \<open>v\<close> read through the store
  \<open>h\<close> is the tree \<open>t\<close>, key by key and element by element. \<open>repr_result\<close> lifts this to
  what the search returns, and \<open>oracles_agree h gg g\<close> says that the numeric comparison
  \<^verbatim>\<open>x > 0\<close> gives on a stored value what it gives on the tree it stands for.
\<close>

fun repr :: "heap \<Rightarrow> gval \<Rightarrow> jsval \<Rightarrow> bool"
  and repr_list :: "heap \<Rightarrow> gval list \<Rightarrow> jsval list \<Rightarrow> bool"
  and repr_fields :: "heap \<Rightarrow> (string \<times> gval) list \<Rightarrow> (string \<times> jsval) list \<Rightarrow> bool"
where
  "repr h v JUndef = (v = GUndef)"
| "repr h v JNull = (v = GNull)"
| "repr h v (JBool b) = (v = GBool b)"
| "repr h v (JNum n) = (v = GNum n)"
| "repr h v (JStr s) = (v = GStr s)"
| "repr h v (JArr xs) =
     (case v of
        GRef a \<Rightarrow> (case h a of GArray vs \<Rightarrow> repr_list h vs xs | GObject gkvs \<Rightarrow> False)
      | _ \<Rightarrow> False)"
| "repr h v (JObj kvs) =
     (case v of
        GRef a \<Rightarrow> (case h a of GObject gkvs \<Rightarrow> repr_fields h gkvs kvs | GArray vs \<Rightarrow> False)
      | _ \<Rightarrow> False)"
| "repr_list h vs [] = (vs = [])"
| "repr_list h vs (x # xs) =
     (case vs of [] \<Rightarrow> False | v # rest \<Rightarrow> repr h v x \<and> repr_list h rest xs)"
| "repr_fields h gkvs [] = (gkvs = [])"
| "repr_fields h gkvs ((key, x) # kvs) =
     (case gkvs of
        [] \<Rightarrow> False
      | (gkey, v) # rest \<Rightarrow> gkey = key \<and> repr h v x \<and> repr_fields h rest kvs)"




text \<open>
  \<open>depth t\<close>: the number of nested calls that a search of the tree \<open>t\<close> can need: one
  for a primitive value, one more than the deepest child for an array or an object.
\<close>

fun depth :: "jsval \<Rightarrow> nat"
  and depth_list :: "jsval list \<Rightarrow> nat"
  and depth_fields :: "(string \<times> jsval) list \<Rightarrow> nat"
where
  "depth (JObj kvs) = Suc (depth_fields kvs)"
| "depth (JArr xs) = Suc (depth_list xs)"
| "depth JUndef = 1"
| "depth JNull = 1"
| "depth (JBool b) = 1"
| "depth (JNum n) = 1"
| "depth (JStr s) = 1"
| "depth_list [] = 0"
| "depth_list (x # xs) = max (depth x) (depth_list xs)"
| "depth_fields [] = 0"
| "depth_fields ((key, x) # kvs) = max (depth x) (depth_fields kvs)"


text \<open>
  The five strategies and the request each of them issues. \<open>settled before after\<close>:
  a strategy left the variables as they were or produced a media URL.
  \<open>progress L W vid lg k st\<close>: after the first \<open>k\<close> strategies either nothing was found
  and \<open>k\<close> requests were issued, or the variables are those that one of these strategies
  produced from the initial values.
\<close>

definition strategies ::
  "jslib \<Rightarrow> world \<Rightarrow> string \<Rightarrow> (strategy_state \<Rightarrow> strategy_state \<times> error option) list" where
  "strategies L W vid =
     [strategy1 L W vid, strategy2 L W vid, strategy3 L W vid, strategy4 L W vid,
      strategy5 L W vid]"

definition strategy_requests :: "string \<Rightarrow> request list" where
  "strategy_requests vid =
     [(DetailApi, ''https://www.douyin.com/aweme/v1/web/aweme/detail/?aweme_id='' @ vid
                  @ ''&aid=6383&cookie_enabled=true&platform=PC&downlink=10''),
      (DesktopPage, ''https://www.douyin.com/video/'' @ vid),
      (MobilePage, ''https://m.douyin.com/share/video/'' @ vid),
      (ItemInfoApi, ''https://www.iesdouyin.com/web/api/v2/aweme/iteminfo/?item_ids='' @ vid),
      (CdnHead, ''https://www.douyin.com/aweme/v1/play/?video_id='' @ vid
                @ ''&ratio=720p&line=0'')]"

definition settled :: "vrec \<Rightarrow> vrec \<Rightarrow> bool" where
  "settled before after = (after = before \<or> truthy (videoSrc after))"

definition outcome :: "jslib \<Rightarrow> world \<Rightarrow> string \<Rightarrow> log \<Rightarrow> nat \<Rightarrow> vrec" where
  "outcome L W vid lg i =
     fst (fst ((strategies L W vid ! i) (init_vars, lg @ take i (strategy_requests vid))))"

definition progress ::
  "jslib \<Rightarrow> world \<Rightarrow> string \<Rightarrow> log \<Rightarrow> nat \<Rightarrow> strategy_state \<Rightarrow> bool" where
  "progress L W vid lg k st =
     ((fst st = init_vars \<and> snd st = lg @ take k (strategy_requests vid) \<and>
       (\<forall>i<k. \<not> truthy (videoSrc (outcome L W vid lg i)))) \<or>
      (truthy (videoSrc (fst st)) \<and>
       (\<exists>j<k. fst st = outcome L W vid lg j \<and>
              snd st = lg @ take (Suc j) (strategy_requests vid) \<and>
              (\<forall>i<j. \<not> truthy (videoSrc (outcome L W vid lg i))))))"

subsection \<open>Concrete inputs\<close>

text \<open>
  The inputs at which the theorems below are instantiated. \<open>lib0\<close> is a library in
  which no pattern matches and every fallible call throws; the other libraries differ
  from it in one function. \<open>world_down\<close> is a network in which every request fails.
\<close>

definition lib0 :: jslib where
  "lib0 = \<lparr>to_number_gt0 = (\<lambda>v. None), URL_href = (\<lambda>location base. None),
            JSON_parse = (\<lambda>s. None), decodeURIComponent = (\<lambda>s. None),
            cheerio_load = (\<lambda>v. None), match_url = (\<lambda>s. None),
            match_router_data = (\<lambda>s. None), match_next_f = (\<lambda>s. None),
            match_playApi = (\<lambda>s. None), match_play_addr = (\<lambda>s. None),
            match_playAddr = (\<lambda>s. None), match_mp4 = (\<lambda>s. None)\<rparr>"

text \<open>
  A library whose \<^verbatim>\<open>new URL\<close> refuses the location \<^verbatim>\<open>//a b\<close> (a host with a space in
  it), as the URL parser of Node does.
\<close>

definition lib_strict_url :: jslib where
  "lib_strict_url =
     lib0\<lparr>URL_href := (\<lambda>location base.
             if location = ''//a b'' then None else Some (''https://v.douyin.com'' @ location))\<rparr>"

text \<open>A library whose URL pattern finds the short link in the pasted text.\<close>

definition lib_url :: jslib where
  "lib_url = lib0\<lparr>match_url := (\<lambda>s. Some ''https://v.douyin.com/abc/'')\<rparr>"

text \<open>A library whose \<^verbatim>\<open>play_addr\<close> pattern captures a watermarked URL with escaped slashes.\<close>

definition lib_mobile :: jslib where
  "lib_mobile =
     lib0\<lparr>match_play_addr := (\<lambda>s.
             Some (''https:'' @ [backslash, CHR ''/'', backslash, CHR ''/''] @ ''v.example''
                   @ [backslash] @ ''u002Faweme/v1/playwm/?video_id=1''))\<rparr>"

definition world_down :: world where
  "world_down = \<lparr>manual_get = (\<lambda>lg url. ManualThrew None),
                  auto_get = (\<lambda>lg url. AutoThrew None None),
                  http_get = (\<lambda>lg rq. None), http_head = (\<lambda>lg url. None)\<rparr>"

text \<open>A network that answers every data request with an empty object and HEAD with 204.\<close>

definition world_useless :: world where
  "world_useless = world_down\<lparr>http_get := (\<lambda>lg rq. Some (JObj [])),
                               http_head := (\<lambda>lg url. Some 204)\<rparr>"

text \<open>A network in which only the HEAD request of strategy 5 succeeds.\<close>

definition world_head_ok :: world where
  "world_head_ok = world_down\<lparr>http_head := (\<lambda>lg url. Some 200)\<rparr>"

text \<open>
  A network in which only the item-info API answers: one item with a watermarked play
  address and a cover on a host that \<^verbatim>\<open>DOMAIN_REPLACEMENTS\<close> rewrites.
\<close>

definition world_iteminfo :: world where
  "world_iteminfo =
     world_down\<lparr>http_get := (\<lambda>lg rq.
        if fst rq = ItemInfoApi then
          Some (JObj [(''item_list'', JArr [JObj
            [(''video'', JObj
               [(''play_addr'', JObj [(''url_list'',
                   JArr [JStr ''https://aweme.snssdk.com/aweme/v1/playwm/?video_id=1''])]),
                (''cover'', JObj [(''url_list'',
                   JArr [JStr ''https://aweme.snssdk.com/cover.jpg''])])]),
             (''desc'', JStr [])]])])
        else None)\<rparr>"

text \<open>A network whose first answer is a redirect to a location that is no URL.\<close>

definition world_bad_redirect :: world where
  "world_bad_redirect =
     world_down\<lparr>manual_get := (\<lambda>lg url. ManualThrew (Some (302, Some ''//a b'')))\<rparr>"

text \<open>A network that redirects the short link to the video page and then fails.\<close>

definition world_redirect :: world where
  "world_redirect =
     world_down\<lparr>manual_get := (\<lambda>lg url.
        ManualThrew (Some (302, Some ''https://www.douyin.com/video/7123456789'')))\<rparr>"

definition body_direct :: jsval where
  "body_direct = JObj [(''url'', JStr ''https://www.douyin.com/video/7123456789'')]"

definition body_short :: jsval where
  "body_short = JObj [(''url'', JStr ''look https://v.douyin.com/abc/ now'')]"

text \<open>Nodes that match all three shapes, the two older ones, the last one, and none.\<close>

definition node_modern :: jsval where
  "node_modern =
     JObj [(''video'', JObj
             [(''playApi'', JStr ''//v.example/play/1''),
              (''play_addr'', JObj [(''url_list'', JArr [JStr ''https://v.example/playwm/2''])]),
              (''download_addr'', JObj [(''url_list'', JArr [JStr ''https://v.example/dl/3''])])]),
           (''desc'', JStr ''hi'')]"

definition node_legacy :: jsval where
  "node_legacy =
     JObj [(''video'', JObj
             [(''play_addr'', JObj [(''url_list'', JArr [JStr ''https://v.example/playwm/2''])]),
              (''download_addr'', JObj [(''url_list'', JArr [JStr ''https://v.example/dl/3''])])]),
           (''desc'', JStr ''hi'')]"

definition node_download :: jsval where
  "node_download =
     JObj [(''video'', JObj
             [(''download_addr'', JObj [(''url_list'', JArr [JStr ''https://v.example/dl/3''])])]),
           (''desc'', JStr ''hi'')]"

definition node_plain :: jsval where
  "node_plain = JObj [(''a'', JArr [JNum 1, JStr ''x'']), (''b'', JNull)]"

text \<open>A node of the download shape whose first URL is the empty string.\<close>

definition node_empty_url :: jsval where
  "node_empty_url =
     JObj [(''video'', JObj [(''download_addr'', JObj [(''url_list'', JArr [JStr []])])])]"



text \<open>
  The inputs above never compare anything but a number with zero; these stand for a
  comparison \<^verbatim>\<open>x > 0\<close> that raises on every other operand.
\<close>

definition gt0_raises :: "jsval \<Rightarrow> bool option" where
  "gt0_raises v = None"




text \<open>The definitions that evaluating the handler at a concrete input unfolds.\<close>

lemmas eval_defs =
  parse_handler_def resolveShortUrl_def extractVideoId_def target_url_def run_strategies_def
  strategy1_def strategy2_def strategy3_def strategy4_def strategy5_def unless_found_def
  respond_def init_vars_def get_prop_def get_opt_def first_opt_def truthy_def js_or_def
  is_digit_def Let_def manual_hop_def str_or_def assign_result_def js_gt0_def unwatermark_def
  lib0_def lib_strict_url_def lib_url_def lib_mobile_def
  world_down_def world_useless_def world_head_ok_def world_iteminfo_def
  world_bad_redirect_def world_redirect_def body_direct_def body_short_def

lemmas shape_defs =
  match_shapes_def shape_playApi_def shape_play_addr_def shape_download_addr_def
  get_opt_def first_opt_def truthy_def js_or_def js_gt0_def unwatermark_def typeof_object_def
  Let_def node_modern_def node_legacy_def node_download_def node_plain_def node_empty_url_def

section \<open>DomainNormalizer is idempotent\<close>

lemma prefix_replace_all:
  "\<not> clashes q rep \<Longrightarrow> prefix q (replace_all m rep s) \<Longrightarrow> prefix q s"
proof (induction m rep s arbitrary: q rule: replace_all.induct)
  case (1 m rep)
  then show ?case by simp
next
  case (2 m rep c cs)
  show ?case
  proof (cases q)
    case Nil
    then show ?thesis by simp
  next
    case (Cons d q')
    show ?thesis
    proof (cases "\<exists>n. m (c # cs) = Some n \<and> 0 < n")
      case True
      then obtain n where n: "m (c # cs) = Some n" "0 < n" by blast
      with "2.prems"(2) have "prefix q (rep @ replace_all m rep (drop n (c # cs)))" by simp
      then have "prefix q rep \<or> prefix rep q"
        by (auto simp: prefix_append)
      with "2.prems"(1) Cons show ?thesis by auto
    next
      case False
      then have eq: "replace_all m rep (c # cs) = c # replace_all m rep cs"
        by (auto split: option.splits)
      with "2.prems"(2) Cons have d: "d = c" and p: "prefix q' (replace_all m rep cs)" by auto
      from "2.prems"(1) Cons have nc: "\<not> clashes q' rep" by simp
      have "prefix q' cs"
      proof (cases "m (c # cs)")
        case None
        from "2.IH"(1)[OF None nc p] show ?thesis .
      next
        case (Some n)
        with False have "\<not> 0 < n" by simp
        from "2.IH"(3)[OF Some this nc p] show ?thesis .
      qed
      with d Cons show ?thesis by simp
    qed
  qed
qed

lemma replace_all_id: "\<not> occurs m s \<Longrightarrow> replace_all m rep s = s"
  by (induction m rep s rule: replace_all.induct) (auto split: option.splits)

lemma occurs_drop: "occurs m (drop n s) \<Longrightarrow> occurs m s"
proof (induction s arbitrary: n)
  case Nil
  then show ?case by simp
next
  case (Cons c cs)
  then show ?case by (cases n) auto
qed

lemma occurs_append:
  "\<forall>s. m s \<noteq> None \<longrightarrow> s \<noteq> [] \<and> hd s \<notin> set rep \<Longrightarrow> occurs m (rep @ xs) \<Longrightarrow> occurs m xs"
  by (induction rep) auto

lemma occurs_replace_all:
  "occurs m' (replace_all m rep s) \<Longrightarrow> starts_outside m' rep \<Longrightarrow> stable_under m rep m'
   \<Longrightarrow> occurs m' s"
proof (induction m rep s rule: replace_all.induct)
  case (1 m rep)
  then show ?case by simp
next
  case (2 m rep c cs)
  show ?case
  proof (cases "\<exists>n. m (c # cs) = Some n \<and> 0 < n")
    case True
    then obtain n where n: "m (c # cs) = Some n" "0 < n" by blast
    with "2.prems"(1) have "occurs m' (rep @ replace_all m rep (drop n (c # cs)))" by simp
    with "2.prems"(2) have "occurs m' (replace_all m rep (drop n (c # cs)))"
      using occurs_append[of m' rep] by (simp add: starts_outside_def)
    with "2.IH"(2)[OF n] "2.prems"(2,3) have "occurs m' (drop n (c # cs))" by simp
    then show ?thesis by (rule occurs_drop)
  next
    case False
    then have eq: "replace_all m rep (c # cs) = c # replace_all m rep cs"
      by (auto split: option.splits)
    from "2.prems"(1) eq
    have "m' (replace_all m rep (c # cs)) \<noteq> None \<or> occurs m' (replace_all m rep cs)"
      by simp
    then show ?thesis
    proof
      assume "m' (replace_all m rep (c # cs)) \<noteq> None"
      with "2.prems"(3) have "m' (c # cs) \<noteq> None" by (simp add: stable_under_def)
      then show ?thesis by simp
    next
      assume o: "occurs m' (replace_all m rep cs)"
      have "occurs m' cs"
      proof (cases "m (c # cs)")
        case None
        from "2.IH"(1)[OF None o "2.prems"(2,3)] show ?thesis .
      next
        case (Some n)
        with False have "\<not> 0 < n" by simp
        from "2.IH"(3)[OF Some this o "2.prems"(2,3)] show ?thesis .
      qed
      then show ?thesis by simp
    qed
  qed
qed

lemma replace_all_clean:
  "starts_outside m rep \<Longrightarrow> stable_under m rep m \<Longrightarrow> \<forall>s. m s \<noteq> Some 0
   \<Longrightarrow> \<not> occurs m (replace_all m rep s)"
proof (induction m rep s rule: replace_all.induct)
  case (1 m rep)
  then show ?case by simp
next
  case (2 m rep c cs)
  show ?case
  proof (cases "m (c # cs)")
    case None
    then have eq: "replace_all m rep (c # cs) = c # replace_all m rep cs" by simp
    have "m (replace_all m rep (c # cs)) = None"
      using "2.prems"(2) None unfolding stable_under_def by blast
    moreover have "\<not> occurs m (replace_all m rep cs)"
      using "2.IH"(1)[OF None "2.prems"] .
    ultimately show ?thesis using eq by simp
  next
    case (Some n)
    with "2.prems"(3) have n: "0 < n" by (cases n) auto
    have "\<not> occurs m (replace_all m rep (drop n (c # cs)))"
      using "2.IH"(2)[OF Some n "2.prems"] .
    then have "\<not> occurs m (rep @ replace_all m rep (drop n (c # cs)))"
      using occurs_append[of m rep] "2.prems"(1) by (auto simp: starts_outside_def)
    with Some n show ?thesis by simp
  qed
qed

lemma starts_outside_lit:
  "q \<noteq> [] \<Longrightarrow> hd q \<notin> set rep \<Longrightarrow> starts_outside (lit q) rep"
  by (auto simp: starts_outside_def lit_def prefix_def split: if_splits)

lemma starts_outside_douyinvod: "starts_outside douyinvod_re ''www.douyin.com''"
  by (auto simp: starts_outside_def douyinvod_re_def split: list.splits if_splits)

lemma stable_under_lit: "\<not> clashes q rep \<Longrightarrow> stable_under m rep (lit q)"
  by (auto simp: stable_under_def lit_def dest: prefix_replace_all split: if_splits)

lemma lit_not_0: "q \<noteq> [] \<Longrightarrow> lit q s \<noteq> Some 0"
  by (simp add: lit_def)

lemma douyinvod_not_0: "douyinvod_re s \<noteq> Some 0"
  by (simp add: douyinvod_re_def split: list.splits)

lemma replace_all_Cons_keep:
  "\<not> (\<exists>n. m (c # cs) = Some n \<and> 0 < n)
   \<Longrightarrow> replace_all m rep (c # cs) = c # replace_all m rep cs"
  by (auto split: option.splits)

lemma replace_all_Cons_hit:
  "m (c # cs) = Some n \<Longrightarrow> 0 < n
   \<Longrightarrow> replace_all m rep (c # cs) = rep @ replace_all m rep (drop n (c # cs))"
  by simp

declare replace_all.simps(2) [simp del]

lemma replace_all_head:
  "av_matcher m \<Longrightarrow> c \<noteq> CHR ''a'' \<Longrightarrow> c \<noteq> CHR ''v''
   \<Longrightarrow> replace_all m rep (c # cs) = c # replace_all m rep cs"
  by (rule replace_all_Cons_keep) (auto simp: av_matcher_def)

lemma replace_all_cases:
  assumes "av_matcher m"
  obtains "s = []" "replace_all m rep s = []"
  | c cs where "s = c # cs" "replace_all m rep s = c # replace_all m rep cs"
  | c cs n where "s = c # cs" "c = CHR ''a'' \<or> c = CHR ''v''"
      "replace_all m rep s = rep @ replace_all m rep (drop n s)"
proof (cases s)
  case Nil
  then show ?thesis using that(1) by simp
next
  case (Cons c cs)
  show ?thesis
  proof (cases "\<exists>n. m (c # cs) = Some n \<and> 0 < n")
    case True
    then obtain n where n: "m (c # cs) = Some n" "0 < n" by blast
    with assms have "c = CHR ''a'' \<or> c = CHR ''v''" by (auto simp: av_matcher_def)
    with n Cons that(3) show ?thesis by (simp add: replace_all_Cons_hit)
  next
    case False
    then have "replace_all m rep (c # cs) = c # replace_all m rep cs"
      by (rule replace_all_Cons_keep)
    with Cons that(2) show ?thesis by simp
  qed
qed

lemma digits_replace_all:
  "av_matcher m \<Longrightarrow>
   takeWhile is_digit (replace_all m ''www.douyin.com'' s) = takeWhile is_digit s \<and>
   dropWhile is_digit (replace_all m ''www.douyin.com'' s)
     = replace_all m ''www.douyin.com'' (dropWhile is_digit s)"
proof (induction s)
  case Nil
  then show ?case by simp
next
  case (Cons c cs)
  show ?case
  proof (cases "is_digit c")
    case True
    then have "c \<noteq> CHR ''a''" "c \<noteq> CHR ''v''" by (auto simp: is_digit_def)
    with Cons.prems have "replace_all m ''www.douyin.com'' (c # cs)
        = c # replace_all m ''www.douyin.com'' cs" by (rule replace_all_head)
    with Cons.IH[OF Cons.prems] True show ?thesis by simp
  next
    case False
    from Cons.prems show ?thesis
    proof (cases rule: replace_all_cases[where rep = "''www.douyin.com''" and s = "c # cs"])
      case 1
      then show ?thesis by simp
    next
      case (2 d ds)
      with False show ?thesis by simp
    next
      case (3 d ds n)
      with False show ?thesis by (simp add: is_digit_def)
    qed
  qed
qed

lemma lower_drop_replace_all:
  "av_matcher m \<Longrightarrow>
   prefix ''.douyinvod.com'' (dropWhile is_lower (replace_all m ''www.douyin.com'' s))
   \<Longrightarrow> prefix ''.douyinvod.com'' (dropWhile is_lower s)"
proof (induction m "''www.douyin.com''" s rule: replace_all.induct)
  case (1 m)
  then show ?case by simp
next
  case (2 m c cs)
  from "2.prems"(1) show ?case
  proof (cases rule: replace_all_cases[where rep = "''www.douyin.com''" and s = "c # cs"])
    case 1
    then show ?thesis by simp
  next
    case (2 d ds)
    then have eq: "replace_all m ''www.douyin.com'' (c # cs)
                   = c # replace_all m ''www.douyin.com'' cs" by simp
    show ?thesis
    proof (cases "is_lower c")
      case True
      with "2.prems" eq
      have p: "prefix ''.douyinvod.com'' (dropWhile is_lower (replace_all m ''www.douyin.com'' cs))"
        by simp
      have "prefix ''.douyinvod.com'' (dropWhile is_lower cs)"
      proof (cases "m (c # cs)")
        case None
        from "2.hyps"(1)[OF None "2.prems"(1) p] show ?thesis .
      next
        case (Some n)
        have "\<not> 0 < n"
        proof
          assume "0 < n"
          with Some have "replace_all m ''www.douyin.com'' (c # cs)
             = ''www.douyin.com'' @ replace_all m ''www.douyin.com'' (drop n (c # cs))"
            by (rule replace_all_Cons_hit)
          with "2.prems"(2) show False by (simp add: is_lower_def)
        qed
        from "2.hyps"(3)[OF Some this "2.prems"(1) p] show ?thesis .
      qed
      with True show ?thesis by simp
    next
      case False
      have "dropWhile is_lower (replace_all m ''www.douyin.com'' (c # cs))
            = replace_all m ''www.douyin.com'' (c # cs)"
        unfolding eq using False by simp
      with "2.prems"(2)
      have "prefix ''.douyinvod.com'' (replace_all m ''www.douyin.com'' (c # cs))"
        by (simp only:)
      then have "prefix ''.douyinvod.com'' (c # cs)"
        by (rule prefix_replace_all[rotated]) simp
      moreover from False have "dropWhile is_lower (c # cs) = c # cs" by simp
      ultimately show ?thesis by (simp only:)
    qed
  next
    case (3 d ds n)
    with "2.prems"(2) show ?thesis by (simp add: is_lower_def)
  qed
qed

lemma lower_take_replace_all:
  assumes "av_matcher m" and "takeWhile is_lower (replace_all m ''www.douyin.com'' s) \<noteq> []"
  shows "takeWhile is_lower s \<noteq> []"
  using assms(1)
proof (cases rule: replace_all_cases[where rep = "''www.douyin.com''" and s = s])
  case 1
  with assms(2) show ?thesis by simp
next
  case (2 c cs)
  with assms(2) show ?thesis by (auto split: if_splits)
next
  case (3 c cs n)
  then show ?thesis by (auto simp: is_lower_def)
qed

lemma douyinvod_re_Some_iff:
  "douyinvod_re s \<noteq> None \<longleftrightarrow>
     (\<exists>s1 s3. s = CHR ''v'' # s1 \<and> takeWhile is_digit s1 \<noteq> [] \<and>
        dropWhile is_digit s1 = CHR ''-'' # s3 \<and> takeWhile is_lower s3 \<noteq> [] \<and>
        prefix ''.douyinvod.com'' (dropWhile is_lower s3))"
  by (cases s; cases "dropWhile is_digit (tl s)")
     (auto simp: douyinvod_re_def simp del: dropWhile_eq_Nil_conv)

lemma stable_under_douyinvod:
  assumes av: "av_matcher m"
  shows "stable_under m ''www.douyin.com'' douyinvod_re"
  unfolding stable_under_def
proof (intro allI impI)
  fix s
  assume hit: "douyinvod_re (replace_all m ''www.douyin.com'' s) \<noteq> None"
  from av show "douyinvod_re s \<noteq> None"
  proof (cases rule: replace_all_cases[where rep = "''www.douyin.com''" and s = s])
    case 1
    with hit show ?thesis by simp
  next
    case (3 c cs n)
    with hit show ?thesis by (simp add: douyinvod_re_def)
  next
    case (2 c cs)
    with hit obtain s1' s3' where
      c: "c = CHR ''v''" and s1': "replace_all m ''www.douyin.com'' cs = s1'" and
      d: "takeWhile is_digit s1' \<noteq> []" and
      h: "dropWhile is_digit s1' = CHR ''-'' # s3'" and
      l: "takeWhile is_lower s3' \<noteq> []" and
      p: "prefix ''.douyinvod.com'' (dropWhile is_lower s3')"
      unfolding douyinvod_re_Some_iff by auto
    from digits_replace_all[OF av, of cs] s1' d h
    have d': "takeWhile is_digit cs \<noteq> []"
      and h': "replace_all m ''www.douyin.com'' (dropWhile is_digit cs) = CHR ''-'' # s3'"
      by auto
    from av obtain us where
      u: "dropWhile is_digit cs = CHR ''-'' # us" and
      s3': "s3' = replace_all m ''www.douyin.com'' us"
    proof (cases rule: replace_all_cases[where rep = "''www.douyin.com''"
                                           and s = "dropWhile is_digit cs"])
      case 1
      with h' show ?thesis by simp
    next
      case (2 e es)
      with h' that show ?thesis by simp
    next
      case (3 e es k)
      with h' show ?thesis by simp
    qed
    from lower_take_replace_all[OF av] l s3' have l': "takeWhile is_lower us \<noteq> []" by blast
    from lower_drop_replace_all[OF av] p s3'
    have p': "prefix ''.douyinvod.com'' (dropWhile is_lower us)" by blast
    from 2 c d' u l' p' show ?thesis unfolding douyinvod_re_Some_iff by blast
  qed
qed

lemma av_matcher_lit: "q \<noteq> [] \<Longrightarrow> hd q = CHR ''a'' \<Longrightarrow> av_matcher (lit q)"
  by (cases q) (auto simp: av_matcher_def lit_def prefix_def split: if_splits)

lemma av_matcher_douyinvod: "av_matcher douyinvod_re"
  by (auto simp: av_matcher_def douyinvod_re_def split: list.splits if_splits)

lemma table_facts:
  assumes "(m, rep) \<in> set DOMAIN_REPLACEMENTS"
  shows "rep = ''www.douyin.com''" "av_matcher m" "starts_outside m ''www.douyin.com''"
    "\<forall>s. m s \<noteq> Some 0"
  using assms
  by (auto simp: DOMAIN_REPLACEMENTS_def av_matcher_lit av_matcher_douyinvod
      starts_outside_lit starts_outside_douyinvod lit_not_0 douyinvod_not_0)

lemma table_stable:
  assumes "(m, rep) \<in> set DOMAIN_REPLACEMENTS" "(m', rep') \<in> set DOMAIN_REPLACEMENTS"
  shows "stable_under m ''www.douyin.com'' m'"
  using assms(2) table_facts(2)[OF assms(1)]
  by (auto simp: DOMAIN_REPLACEMENTS_def stable_under_lit stable_under_douyinvod)

lemma foldl_rules_clean:
  "set rs \<subseteq> set DOMAIN_REPLACEMENTS \<Longrightarrow> (m', rep') \<in> set rs
   \<Longrightarrow> \<not> occurs m' (foldl (\<lambda>normalized (pattern, replacement).
                  replace_all pattern replacement normalized) u rs)"
proof (induction rs arbitrary: m' rep' rule: rev_induct)
  case Nil
  then show ?case by simp
next
  case (snoc r rs)
  obtain m rep where r: "r = (m, rep)" by (cases r)
  let ?x = "foldl (\<lambda>normalized (pattern, replacement).
                  replace_all pattern replacement normalized) u rs"
  from snoc.prems(1) r have mem: "(m, rep) \<in> set DOMAIN_REPLACEMENTS" by simp
  from table_facts(1)[OF mem] have rep: "rep = ''www.douyin.com''" .
  from snoc.prems have mem': "(m', rep') \<in> set DOMAIN_REPLACEMENTS" by auto
  have step: "foldl (\<lambda>normalized (pattern, replacement).
                  replace_all pattern replacement normalized) u (rs @ [r])
              = replace_all m ''www.douyin.com'' ?x"
    by (simp add: r rep)
  show ?case
  proof (cases "(m', rep') \<in> set rs")
    case True
    with snoc.IH snoc.prems(1) have "\<not> occurs m' ?x" by simp
    then have "\<not> occurs m' (replace_all m ''www.douyin.com'' ?x)"
      using occurs_replace_all[OF _ table_facts(3)[OF mem'] table_stable[OF mem mem']]
      by blast
    with step show ?thesis by simp
  next
    case False
    with snoc.prems(2) r have "m' = m" by simp
    then show ?thesis
      unfolding step
      using replace_all_clean[OF table_facts(3)[OF mem] table_stable[OF mem mem]
          table_facts(4)[OF mem]]
      by simp
  qed
qed

lemma foldl_rules_id:
  "\<forall>(m, rep) \<in> set rs. \<not> occurs m s
   \<Longrightarrow> foldl (\<lambda>normalized (pattern, replacement).
                  replace_all pattern replacement normalized) s rs = s"
  by (induction rs) (auto simp: replace_all_id)

lemma normalizeVideoUrl_clean: "domain_clean (normalizeVideoUrl u)"
  unfolding domain_clean_def normalizeVideoUrl_def
  using foldl_rules_clean[OF subset_refl] by blast

lemma normalizeVideoUrl_fixed: "domain_clean s \<Longrightarrow> normalizeVideoUrl s = s"
  unfolding domain_clean_def normalizeVideoUrl_def by (rule foldl_rules_id)

text \<open>
  C7. \<^verbatim>\<open>normalizeVideoUrl\<close> is idempotent: normalising a normalised URL changes nothing,
  for every string, because after one pass none of the four patterns of
  \<^verbatim>\<open>DOMAIN_REPLACEMENTS\<close> matches anywhere in the result.
\<close>

theorem normalizeVideoUrl_idempotent:
  "normalizeVideoUrl (normalizeVideoUrl u) = normalizeVideoUrl u \<and>
   \<not> occurs (lit ''aweme.snssdk.com'') (normalizeVideoUrl u) \<and>
   \<not> occurs (lit ''api-h2.amemv.com'') (normalizeVideoUrl u) \<and>
   \<not> occurs (lit ''api.amemv.com'') (normalizeVideoUrl u) \<and>
   \<not> occurs douyinvod_re (normalizeVideoUrl u)"
  using normalizeVideoUrl_fixed[OF normalizeVideoUrl_clean, of u]
    normalizeVideoUrl_clean[of u]
  by (simp add: domain_clean_def DOMAIN_REPLACEMENTS_def)

section \<open>ShortLinkResolver\<close>

text \<open>
  C3. For every input URL from which \<^verbatim>\<open>extractVideoId\<close> already yields an identifier,
  \<^verbatim>\<open>resolveShortUrl\<close> returns that URL as \<^verbatim>\<open>finalUrl\<close> together with that identifier
  and issues no network request: the request log is returned as it was, whatever the
  network would have answered.
\<close>

theorem resolveShortUrl_direct:
  "extractVideoId shortUrl = Some directId \<Longrightarrow>
   resolveShortUrl L W shortUrl lg = (Inr \<lparr>finalUrl = shortUrl, videoId = Some directId\<rparr>, lg)"
  by (simp add: resolveShortUrl_def)

theorem resolveShortUrl_direct_witness:
  "resolveShortUrl lib0 world_down ''https://www.douyin.com/video/7123456789?x=1'' []
     = (Inr \<lparr>finalUrl = ''https://www.douyin.com/video/7123456789?x=1'',
              videoId = Some ''7123456789''\<rparr>, [])"
  by (rule resolveShortUrl_direct) (simp add: extractVideoId_def is_digit_def)

text \<open>
  The loop of \<^verbatim>\<open>resolveShortUrl\<close>: it appends manual requests only, at most as many as
  it has iterations; it throws only when \<^verbatim>\<open>new URL\<close> does; and when every iteration
  continues, it uses all of them.
\<close>

lemma manual_chase_log:
  "\<exists>hops. snd (manual_chase L W n currentUrl lg) = lg @ hops \<and> length hops \<le> n \<and>
     list_all (\<lambda>rq. fst rq = ManualHop) hops"
proof (induction n arbitrary: currentUrl lg)
  case 0
  then show ?case by simp
next
  case (Suc n)
  show ?case
  proof (cases "manual_hop L W currentUrl lg")
    case (HopContinue nextUrl)
    from Suc.IH[of nextUrl "lg @ [(ManualHop, currentUrl)]"]
    obtain hops where "snd (manual_chase L W n nextUrl (lg @ [(ManualHop, currentUrl)]))
            = (lg @ [(ManualHop, currentUrl)]) @ hops" "length hops \<le> n"
           "list_all (\<lambda>rq. fst rq = ManualHop) hops" by blast
    with HopContinue show ?thesis
      by (intro exI[of _ "(ManualHop, currentUrl) # hops"]) simp
  qed (auto intro!: exI[of _ "[(ManualHop, currentUrl)]"])
qed

lemma manual_chase_no_raise:
  "\<forall>location base. URL_href L location base \<noteq> None
   \<Longrightarrow> fst (manual_chase L W n currentUrl lg) \<noteq> Raised e"
proof (induction n arbitrary: currentUrl lg)
  case 0
  then show ?case by simp
next
  case (Suc n)
  have total: "(URL_href L location base = None) = False" for location base
    using Suc.prems by simp
  have "manual_hop L W currentUrl lg \<noteq> HopRaise e'" for e'
    by (auto simp: manual_hop_def Let_def total
             split: manual_resp.splits option.splits if_splits)
  with Suc show ?case by (cases "manual_hop L W currentUrl lg") auto
qed

lemma manual_chase_exhaust:
  "\<forall>u l. \<exists>nextUrl. manual_hop L W u l = HopContinue nextUrl
   \<Longrightarrow> \<exists>hops. manual_chase L W n currentUrl lg = (LoopExit, lg @ hops) \<and> length hops = n \<and>
          list_all (\<lambda>rq. fst rq = ManualHop) hops"
proof (induction n arbitrary: currentUrl lg)
  case 0
  then show ?case by simp
next
  case (Suc n)
  from Suc.prems obtain nextUrl where nx: "manual_hop L W currentUrl lg = HopContinue nextUrl"
    by blast
  from Suc.IH[OF Suc.prems, of nextUrl "lg @ [(ManualHop, currentUrl)]"]
  obtain hops where "manual_chase L W n nextUrl (lg @ [(ManualHop, currentUrl)])
            = (LoopExit, (lg @ [(ManualHop, currentUrl)]) @ hops)" "length hops = n"
           "list_all (\<lambda>rq. fst rq = ManualHop) hops" by blast
  with nx show ?case
    by (intro exI[of _ "(ManualHop, currentUrl) # hops"]) simp
qed

lemma resolveShortUrl_bounded:
  "\<exists>hops auto. snd (resolveShortUrl L W shortUrl lg) = lg @ hops @ auto \<and> length hops \<le> 10 \<and>
     list_all (\<lambda>rq. fst rq = ManualHop) hops \<and> (auto = [] \<or> auto = [(AutoFollow, shortUrl)])"
proof (cases "extractVideoId shortUrl")
  case (Some a)
  then show ?thesis by (simp add: resolveShortUrl_def)
next
  case None
  from manual_chase_log[of L W 10 shortUrl lg]
  obtain hops where h: "snd (manual_chase L W 10 shortUrl lg) = lg @ hops" "length hops \<le> 10"
     "list_all (\<lambda>rq. fst rq = ManualHop) hops" by blast
  obtain c lg' where c: "manual_chase L W 10 shortUrl lg = (c, lg')" by (cases "manual_chase L W 10 shortUrl lg")
  with h have lg': "lg' = lg @ hops" by simp
  show ?thesis
  proof (cases c)
    case LoopExit
    with None c lg' h(2,3) show ?thesis
      by (intro exI[of _ hops] exI[of _ "[(AutoFollow, shortUrl)]"])
         (simp add: resolveShortUrl_def Let_def)
  qed (use None c lg' h(2,3) in
        \<open>(intro exI[of _ hops] exI[of _ "[]"], simp add: resolveShortUrl_def)+\<close>)
qed

lemma resolveShortUrl_returns:
  assumes "\<forall>location base. URL_href L location base \<noteq> None"
  shows "\<exists>r. fst (resolveShortUrl L W shortUrl lg) = Inr r"
proof -
  obtain c lg' where c: "manual_chase L W 10 shortUrl lg = (c, lg')" by (cases "manual_chase L W 10 shortUrl lg")
  with manual_chase_no_raise[OF assms, of W 10 shortUrl lg] have "c \<noteq> Raised e" for e
    by (metis fst_conv)
  with c show ?thesis
    by (cases c) (auto simp: resolveShortUrl_def Let_def split: option.splits)
qed

lemma resolveShortUrl_fallback:
  assumes "extractVideoId shortUrl = None"
    and "\<forall>u l. \<exists>nextUrl. manual_hop L W u l = HopContinue nextUrl"
  shows "\<exists>hops r. resolveShortUrl L W shortUrl lg = (Inr r, lg @ hops @ [(AutoFollow, shortUrl)])
           \<and> length hops = 10 \<and> list_all (\<lambda>rq. fst rq = ManualHop) hops"
proof -
  from manual_chase_exhaust[OF assms(2), of 10 shortUrl lg]
  obtain hops where "manual_chase L W 10 shortUrl lg = (LoopExit, lg @ hops)" "length hops = 10"
    "list_all (\<lambda>rq. fst rq = ManualHop) hops" by blast
  with assms(1) show ?thesis
    by (auto simp: resolveShortUrl_def Let_def intro!: exI[of _ hops])
qed

text \<open>
  C4. Manual chasing issues at most 10 requests (\<open>resolveShortUrl_bounded\<close>), a chain
  that outlasts the bound leaves the loop without an exception and the single auto-follow
  request is issued (\<open>resolveShortUrl_fallback\<close>), and the function always ends. It
  returns a result whenever \<^verbatim>\<open>new URL(location, currentUrl)\<close> accepts every relative
  location (\<open>resolveShortUrl_returns\<close>). But that call stands inside the \<^verbatim>\<open>catch\<close> block
  of the loop: when the first answer is a redirect whose \<^verbatim>\<open>Location\<close> is \<^verbatim>\<open>//a b\<close>,
  the TypeError of \<^verbatim>\<open>new URL\<close> leaves \<^verbatim>\<open>resolveShortUrl\<close> after one request, no fallback
  request is issued, and the handler answers with status 500.
\<close>

theorem resolveShortUrl_raises_on_bad_location:
  "resolveShortUrl lib_strict_url world_bad_redirect ''https://v.douyin.com/abc/'' []
     = (Inl TypeError, [(ManualHop, ''https://v.douyin.com/abc/'')]) \<and>
   parse_handler lib_strict_url world_bad_redirect
       (JObj [(''url'', JStr ''https://v.douyin.com/abc/'')]) []
     = (Unhandled500 TypeError, [(ManualHop, ''https://v.douyin.com/abc/'')])"
  by (simp add: eval_defs eval_nat_numeral)

section \<open>DeepStructureSearch\<close>

lemma first_usable_of_append:
  "first_usable_of (xs @ ys) =
     (case first_usable_of xs of Inr None \<Rightarrow> first_usable_of ys | res \<Rightarrow> res)"
  by (induction xs) (auto simp: first_usable_of_def split: sum.splits option.splits)

lemma first_usable_of_Nil: "first_usable_of [] = Inr None"
  by (simp add: first_usable_of_def)

lemma find_usable: "List.find usable cs = Some c \<Longrightarrow> usable c"
  by (induction cs) (auto split: if_splits)

lemma first_usable_of_truthy: "first_usable_of cs = Inr (Some r) \<Longrightarrow> truthy (videoSrc r)"
  by (auto simp: first_usable_of_def usable_def dest!: find_usable
           split: option.splits sum.splits)

lemma find_candidates:
  "first_usable_of (candidates g node) =
     (case findVideoInObject g node of
        Inr (Some r) \<Rightarrow> if truthy (videoSrc r) then Inr (Some r) else Inr None
      | res \<Rightarrow> res)"
  "find_in_children g xs = first_usable_of (concat (map (candidates g) xs))"
  "find_in_fields g kvs = first_usable_of (concat (map (\<lambda>(key, x). candidates g x) kvs))"
proof (induction g node and g xs and g kvs rule: findVideoInObject_find_in_children_find_in_fields.induct)
  case (1 g kvs)
  then show ?case
    by (auto simp: usable_def dest: first_usable_of_truthy
             split: sum.splits option.splits)
       (simp_all add: first_usable_of_def usable_def)
next
  case (2 g xs)
  then show ?case
    by (auto simp: usable_def dest: first_usable_of_truthy
             split: sum.splits option.splits)
       (simp_all add: first_usable_of_def usable_def)
next
  case (9 g x xs)
  then show ?case 
    by (auto simp: first_usable_of_append first_usable_of_Nil split: sum.splits option.splits)
next
  case (11 g key x kvs)
  then show ?case
    by (auto simp: first_usable_of_append first_usable_of_Nil split: sum.splits option.splits)
qed (simp_all add: first_usable_of_Nil)

lemma findVideoInObject_spec: "findVideoInObject g node = DeepStructureSearch g node"
  by (cases node)
     (auto simp: DeepStructureSearch_def truthy_def typeof_object_def children_def
         find_candidates(2,3) case_prod_unfold comp_def split: sum.splits option.splits)

lemma candidates_Nil:
  "candidates g node = [] \<Longrightarrow> findVideoInObject g node = Inr None"
proof (cases node)
  case (JObj kvs)
  assume "candidates g node = []"
  with JObj show ?thesis
    by (auto simp: find_candidates(3) first_usable_of_Nil simp del: concat_eq_Nil_conv
             split: sum.splits option.splits)
next
  case (JArr xs)
  assume "candidates g node = []"
  with JArr show ?thesis
    by (auto simp: find_candidates(2) first_usable_of_Nil simp del: concat_eq_Nil_conv
             split: sum.splits option.splits)
qed simp_all

lemma findVideoInObject_root:
  "truthy node \<Longrightarrow> typeof_object node \<Longrightarrow> match_shapes g node = Inr (Some r)
   \<Longrightarrow> findVideoInObject g node = Inr (Some r)"
  by (cases node) (auto simp: typeof_object_def truthy_def)

text \<open>
  C5, as the code has it. \<open>DeepStructureSearch\<close> is the search in the words of the
  specification, with the two things the code does differently: at every object or
  array the three shapes are tried in the fixed order and the first that matches decides
  (its record is returned, or the TypeError it raises on a field of the wrong type);
  otherwise the children are searched in key order, and the result is the first child
  result, in traversal order, that is an exception or a record with a truthy
  \<^verbatim>\<open>videoSrc\<close>; a child record whose \<^verbatim>\<open>videoSrc\<close> is empty is passed over
  (\<^verbatim>\<open>if (result && result.videoSrc)\<close>). The result is absent when no node of the
  traversal matches a shape.
\<close>

theorem findVideoInObject_first_usable:
  "findVideoInObject g node = DeepStructureSearch g node \<and>
   (truthy node \<and> typeof_object node \<and> shape_playApi node = Inr (Some r)
      \<longrightarrow> findVideoInObject g node = Inr (Some r)) \<and>
   (truthy node \<and> typeof_object node \<and> shape_playApi node = Inr None \<and>
    shape_play_addr g node = Inr (Some r)
      \<longrightarrow> findVideoInObject g node = Inr (Some r)) \<and>
   (truthy node \<and> typeof_object node \<and> shape_playApi node = Inr None \<and>
    shape_play_addr g node = Inr None \<and> shape_download_addr g node = Inr (Some r)
      \<longrightarrow> findVideoInObject g node = Inr (Some r)) \<and>
   (candidates g node = [] \<longrightarrow> findVideoInObject g node = Inr None)"
  using findVideoInObject_spec[of g node] candidates_Nil[of g node]
    findVideoInObject_root[of node g r]
  by (auto simp: match_shapes_def)

theorem findVideoInObject_first_usable_witness:
  "findVideoInObject (\<lambda>v. None) node_modern
     = Inr (Some \<lparr>videoSrc = JStr ''https://v.example/play/1'', coverSrc = JStr [],
                  desc = JStr ''hi''\<rparr>) \<and>
   findVideoInObject (\<lambda>v. None) node_legacy
     = Inr (Some \<lparr>videoSrc = JStr ''https://v.example/play/2'', coverSrc = JStr [],
                  desc = JStr ''hi''\<rparr>) \<and>
   findVideoInObject (\<lambda>v. None) node_download
     = Inr (Some \<lparr>videoSrc = JStr ''https://v.example/dl/3'', coverSrc = JStr [],
                  desc = JStr ''hi''\<rparr>) \<and>
   findVideoInObject (\<lambda>v. None) node_plain = Inr None"
proof (intro conjI)
  let ?g = "\<lambda>v::jsval. None :: bool option"
  have "truthy node_modern \<and> typeof_object node_modern \<and>
        shape_playApi node_modern
          = Inr (Some \<lparr>videoSrc = JStr ''https://v.example/play/1'', coverSrc = JStr [],
                       desc = JStr ''hi''\<rparr>)"
    by (simp add: shape_defs)
  with findVideoInObject_first_usable[of ?g node_modern]
  show "findVideoInObject ?g node_modern
     = Inr (Some \<lparr>videoSrc = JStr ''https://v.example/play/1'', coverSrc = JStr [],
                  desc = JStr ''hi''\<rparr>)" by blast
next
  let ?g = "\<lambda>v::jsval. None :: bool option"
  have "truthy node_legacy \<and> typeof_object node_legacy \<and>
        shape_playApi node_legacy = Inr None \<and>
        shape_play_addr ?g node_legacy
          = Inr (Some \<lparr>videoSrc = JStr ''https://v.example/play/2'', coverSrc = JStr [],
                       desc = JStr ''hi''\<rparr>)"
    by (simp add: shape_defs)
  with findVideoInObject_first_usable[of ?g node_legacy]
  show "findVideoInObject ?g node_legacy
     = Inr (Some \<lparr>videoSrc = JStr ''https://v.example/play/2'', coverSrc = JStr [],
                  desc = JStr ''hi''\<rparr>)" by blast
next
  let ?g = "\<lambda>v::jsval. None :: bool option"
  have "truthy node_download \<and> typeof_object node_download \<and>
        shape_playApi node_download = Inr None \<and>
        shape_play_addr ?g node_download = Inr None \<and>
        shape_download_addr ?g node_download
          = Inr (Some \<lparr>videoSrc = JStr ''https://v.example/dl/3'', coverSrc = JStr [],
                       desc = JStr ''hi''\<rparr>)"
    by (simp add: shape_defs)
  with findVideoInObject_first_usable[of ?g node_download]
  show "findVideoInObject ?g node_download
     = Inr (Some \<lparr>videoSrc = JStr ''https://v.example/dl/3'', coverSrc = JStr [],
                  desc = JStr ''hi''\<rparr>)" by blast
next
  let ?g = "\<lambda>v::jsval. None :: bool option"
  have "candidates ?g node_plain = []"
    by (simp add: shape_defs)
  with findVideoInObject_first_usable[of ?g node_plain]
  show "findVideoInObject ?g node_plain = Inr None" by blast
qed

text \<open>
  C5 as the specification states it fails: the first child below has a result that is
  not absent (a record of the download shape whose URL is the empty string), yet the
  search passes it over and returns the record of the second child.
\<close>

theorem findVideoInObject_skips_empty_url:
  "findVideoInObject gt0_raises node_empty_url
     = Inr (Some \<lparr>videoSrc = JStr [], coverSrc = JStr [], desc = JStr []\<rparr>) \<and>
   findVideoInObject gt0_raises (JObj [(''first'', node_empty_url), (''second'', node_modern)])
     = Inr (Some \<lparr>videoSrc = JStr ''https://v.example/play/1'', coverSrc = JStr [],
                  desc = JStr ''hi''\<rparr>)"
  by (simp add: shape_defs)

subsection \<open>The call stack\<close>

text \<open>
  With room for \<open>depth t\<close> nested calls the search of \<open>t\<close> never meets the end of the
  stack; below \<open>n\<close> wrapping objects a stack of at most \<open>n\<close> calls is used up before the
  search reaches what they wrap.
\<close>

lemma depth_fields_map: "depth_fields kvs = depth_list (map snd kvs)"
  by (induction kvs) auto













lemma repr_str: "repr h v t \<Longrightarrow> (v = GStr s) = (t = JStr s)"
  by (cases t) (auto split: gval.splits gobj.splits)

















subsection \<open>The watermark marker\<close>

lemma replace_first_marker:
  "str_includes u ''playwm'' \<Longrightarrow>
   \<exists>pre post. u = pre @ ''playwm'' @ post \<and> \<not> str_includes (pre @ ''playw'') ''playwm'' \<and>
      replace_first ''playwm'' ''play'' u = pre @ ''play'' @ post"
proof (induction u)
  case Nil
  then show ?case by simp
next
  case (Cons c cs)
  show ?case
  proof (cases "prefix ''playwm'' (c # cs)")
    case True
    then obtain post where "c # cs = ''playwm'' @ post" by (auto simp: prefix_def)
    then show ?thesis
      by (intro exI[of _ "[]"] exI[of _ post]) (simp add: prefix_def)
  next
    case False
    with Cons.prems have "str_includes cs ''playwm''"
      unfolding str_includes.simps by blast
    from Cons.IH[OF this] obtain pre post where
      u: "cs = pre @ ''playwm'' @ post" and n: "\<not> str_includes (pre @ ''playw'') ''playwm''"
      and r: "replace_first ''playwm'' ''play'' cs = pre @ ''play'' @ post" by blast
    have "\<not> prefix ''playwm'' (c # pre @ ''playw'')"
    proof
      assume "prefix ''playwm'' (c # pre @ ''playw'')"
      moreover have "prefix (c # pre @ ''playw'') (c # cs)" unfolding u by (simp add: prefix_def)
      ultimately have "prefix ''playwm'' (c # cs)" by (rule prefix_order.trans)
      with False show False by blast
    qed
    with n have "\<not> str_includes ((c # pre) @ ''playw'') ''playwm''"
      unfolding append_Cons str_includes.simps by blast
    moreover from False r have "replace_first ''playwm'' ''play'' (c # cs) = (c # pre) @ ''play'' @ post"
      unfolding replace_first.simps append_Cons by (simp only: if_False)
    moreover from u have "c # cs = (c # pre) @ ''playwm'' @ post" by simp
    ultimately show ?thesis by blast
  qed
qed

lemma legacy_shape_unwatermarked:
  assumes v: "truthy (get_opt obj ''video'')"
    and np: "\<not> truthy (get_opt (get_opt obj ''video'') ''playApi'')"
    and pa: "truthy (get_opt (get_opt obj ''video'') ''play_addr'')"
    and len: "js_gt0 g (get_opt (get_opt (get_opt (get_opt obj ''video'') ''play_addr'')
                ''url_list'') ''length'') = Inr True"
    and first: "first_opt (get_opt (get_opt (get_opt obj ''video'') ''play_addr'') ''url_list'')
                = JStr u"
  shows "\<exists>r. findVideoInObject g obj = Inr (Some r) \<and>
             videoSrc r = JStr (replace_first ''playwm'' ''play'' u)"
proof -
  from v obtain kvs where obj: "obj = JObj kvs"
    by (cases obj) (auto simp: get_opt_def truthy_def split: if_splits)
  have s1: "shape_playApi obj = Inr None"
    using np by (simp add: shape_playApi_def Let_def)
  have "\<exists>r. shape_play_addr g obj = Inr (Some r) \<and>
             videoSrc r = JStr (replace_first ''playwm'' ''play'' u)"
    using v pa len first by (simp add: shape_play_addr_def Let_def unwatermark_def)
  with s1 show ?thesis
    unfolding obj by (auto simp: match_shapes_def)
qed

lemma mobile_script_unwatermarked:
  assumes "\<not> truthy (videoSrc vars)"
    and "str_includes (str_or el []) ''playAddr'' \<or> str_includes (str_or el []) ''play_addr''
         \<or> str_includes (str_or el []) ''playApi''"
    and "first_capture [match_playApi L, match_play_addr L, match_playAddr L] (str_or el [])
         = Some capture"
  shows "videoSrc (mobile_script L vars el)
         = JStr (replace_first ''playwm'' ''play'' (with_scheme (decode_slashes capture)))"
  using assms by (simp add: mobile_script_def Let_def mobile_src_def)

text \<open>
  C8. A media URL with the watermark marker \<^verbatim>\<open>playwm\<close> that is obtained through the
  legacy play-address shape of \<^verbatim>\<open>findVideoInObject\<close> (the modern shape not matching),
  or through a pattern capture of the mobile-scrape strategy (after its slashes are
  decoded and its scheme added), is returned with the marker replaced by \<^verbatim>\<open>play\<close>:
  the text before the leftmost marker and the text behind it are kept.
\<close>

theorem watermark_marker_replaced:
  "(truthy (get_opt obj ''video'') \<and>
    \<not> truthy (get_opt (get_opt obj ''video'') ''playApi'') \<and>
    truthy (get_opt (get_opt obj ''video'') ''play_addr'') \<and>
    js_gt0 g (get_opt (get_opt (get_opt (get_opt obj ''video'') ''play_addr'')
                ''url_list'') ''length'') = Inr True \<and>
    first_opt (get_opt (get_opt (get_opt obj ''video'') ''play_addr'') ''url_list'') = JStr u \<and>
    str_includes u ''playwm''
    \<longrightarrow> (\<exists>pre post r. u = pre @ ''playwm'' @ post \<and>
           \<not> str_includes (pre @ ''playw'') ''playwm'' \<and>
           findVideoInObject g obj = Inr (Some r) \<and>
           videoSrc r = JStr (pre @ ''play'' @ post))) \<and>
   (\<not> truthy (videoSrc vars) \<and>
    (str_includes (str_or el []) ''playAddr'' \<or> str_includes (str_or el []) ''play_addr''
       \<or> str_includes (str_or el []) ''playApi'') \<and>
    first_capture [match_playApi L, match_play_addr L, match_playAddr L] (str_or el [])
      = Some capture \<and>
    str_includes (with_scheme (decode_slashes capture)) ''playwm''
    \<longrightarrow> (\<exists>pre post. with_scheme (decode_slashes capture) = pre @ ''playwm'' @ post \<and>
           \<not> str_includes (pre @ ''playw'') ''playwm'' \<and>
           videoSrc (mobile_script L vars el) = JStr (pre @ ''play'' @ post)))"
proof (intro conjI impI)
  assume a: "truthy (get_opt obj ''video'') \<and>
    \<not> truthy (get_opt (get_opt obj ''video'') ''playApi'') \<and>
    truthy (get_opt (get_opt obj ''video'') ''play_addr'') \<and>
    js_gt0 g (get_opt (get_opt (get_opt (get_opt obj ''video'') ''play_addr'')
                ''url_list'') ''length'') = Inr True \<and>
    first_opt (get_opt (get_opt (get_opt obj ''video'') ''play_addr'') ''url_list'') = JStr u \<and>
    str_includes u ''playwm''"
  then obtain r where r: "findVideoInObject g obj = Inr (Some r)"
      "videoSrc r = JStr (replace_first ''playwm'' ''play'' u)"
    using legacy_shape_unwatermarked[of obj g u] by blast
  from a replace_first_marker[of u] obtain pre post where
    "u = pre @ ''playwm'' @ post" "\<not> str_includes (pre @ ''playw'') ''playwm''"
    "replace_first ''playwm'' ''play'' u = pre @ ''play'' @ post" by blast
  with r show "\<exists>pre post r. u = pre @ ''playwm'' @ post \<and>
           \<not> str_includes (pre @ ''playw'') ''playwm'' \<and>
           findVideoInObject g obj = Inr (Some r) \<and>
           videoSrc r = JStr (pre @ ''play'' @ post)" by metis
next
  assume a: "\<not> truthy (videoSrc vars) \<and>
    (str_includes (str_or el []) ''playAddr'' \<or> str_includes (str_or el []) ''play_addr''
       \<or> str_includes (str_or el []) ''playApi'') \<and>
    first_capture [match_playApi L, match_play_addr L, match_playAddr L] (str_or el [])
      = Some capture \<and>
    str_includes (with_scheme (decode_slashes capture)) ''playwm''"
  then have v: "videoSrc (mobile_script L vars el)
         = JStr (replace_first ''playwm'' ''play'' (with_scheme (decode_slashes capture)))"
    using mobile_script_unwatermarked[of vars el L capture] by blast
  from a replace_first_marker[of "with_scheme (decode_slashes capture)"] obtain pre post where
    "with_scheme (decode_slashes capture) = pre @ ''playwm'' @ post"
    "\<not> str_includes (pre @ ''playw'') ''playwm''"
    "replace_first ''playwm'' ''play'' (with_scheme (decode_slashes capture)) = pre @ ''play'' @ post"
    by blast
  with v show "\<exists>pre post. with_scheme (decode_slashes capture) = pre @ ''playwm'' @ post \<and>
           \<not> str_includes (pre @ ''playw'') ''playwm'' \<and>
           videoSrc (mobile_script L vars el) = JStr (pre @ ''play'' @ post)" by metis
qed

theorem watermark_marker_replaced_witness:
  "(\<exists>pre post r. ''https://v.example/playwm/2'' = pre @ ''playwm'' @ post \<and>
           \<not> str_includes (pre @ ''playw'') ''playwm'' \<and>
           findVideoInObject (\<lambda>v. None) node_legacy = Inr (Some r) \<and>
           videoSrc r = JStr (pre @ ''play'' @ post)) \<and>
   (\<exists>pre post. ''https://v.example/aweme/v1/playwm/?video_id=1'' = pre @ ''playwm'' @ post \<and>
           \<not> str_includes (pre @ ''playw'') ''playwm'' \<and>
           videoSrc (mobile_script lib_mobile init_vars (Some ''x play_addr y''))
             = JStr (pre @ ''play'' @ post))"
proof
  let ?g = "\<lambda>v::jsval. None :: bool option"
  have "truthy (get_opt node_legacy ''video'') \<and>
    \<not> truthy (get_opt (get_opt node_legacy ''video'') ''playApi'') \<and>
    truthy (get_opt (get_opt node_legacy ''video'') ''play_addr'') \<and>
    js_gt0 ?g (get_opt (get_opt (get_opt (get_opt node_legacy ''video'') ''play_addr'')
                ''url_list'') ''length'') = Inr True \<and>
    first_opt (get_opt (get_opt (get_opt node_legacy ''video'') ''play_addr'') ''url_list'')
      = JStr ''https://v.example/playwm/2'' \<and>
    str_includes ''https://v.example/playwm/2'' ''playwm''"
    by (simp add: shape_defs)
  with watermark_marker_replaced[of node_legacy ?g "''https://v.example/playwm/2''"]
  show "\<exists>pre post r. ''https://v.example/playwm/2'' = pre @ ''playwm'' @ post \<and>
           \<not> str_includes (pre @ ''playw'') ''playwm'' \<and>
           findVideoInObject ?g node_legacy = Inr (Some r) \<and>
           videoSrc r = JStr (pre @ ''play'' @ post)" by blast
next
  let ?capture = "''https:'' @ [backslash, CHR ''/'', backslash, CHR ''/''] @ ''v.example''
                   @ [backslash] @ ''u002Faweme/v1/playwm/?video_id=1''"
  have d: "with_scheme (decode_slashes ?capture)
           = ''https://v.example/aweme/v1/playwm/?video_id=1''"
    by (simp add: with_scheme_def decode_slashes_def replace_all.simps lit_def backslash_def)
  have "\<not> truthy (videoSrc init_vars) \<and>
    (str_includes (str_or (Some ''x play_addr y'') []) ''playAddr''
       \<or> str_includes (str_or (Some ''x play_addr y'') []) ''play_addr''
       \<or> str_includes (str_or (Some ''x play_addr y'') []) ''playApi'') \<and>
    first_capture [match_playApi lib_mobile, match_play_addr lib_mobile,
                   match_playAddr lib_mobile] (str_or (Some ''x play_addr y'') [])
      = Some ?capture \<and>
    str_includes (with_scheme (decode_slashes ?capture)) ''playwm''"
    unfolding d by (simp add: eval_defs)
  with watermark_marker_replaced[of _ _ _ init_vars "Some ''x play_addr y''" lib_mobile ?capture]
  show "\<exists>pre post. ''https://v.example/aweme/v1/playwm/?video_id=1'' = pre @ ''playwm'' @ post \<and>
           \<not> str_includes (pre @ ''playw'') ''playwm'' \<and>
           videoSrc (mobile_script lib_mobile init_vars (Some ''x play_addr y''))
             = JStr (pre @ ''play'' @ post)"
    unfolding d by blast
qed

section \<open>ResolutionPipeline\<close>

lemma settled_refl [simp]: "settled a a"
  by (simp add: settled_def)

lemma replace_all_nonempty: "rep \<noteq> [] \<Longrightarrow> s \<noteq> [] \<Longrightarrow> replace_all m rep s \<noteq> []"
  by (cases s) (auto simp: replace_all.simps split: option.splits)

lemma normalizeVideoUrl_nonempty: "s \<noteq> [] \<Longrightarrow> normalizeVideoUrl s \<noteq> []"
  by (simp add: normalizeVideoUrl_def DOMAIN_REPLACEMENTS_def replace_all_nonempty)

lemma replace_first_nonempty: "rep \<noteq> [] \<Longrightarrow> s \<noteq> [] \<Longrightarrow> replace_first pat rep s \<noteq> []"
  by (cases s) auto

lemma with_scheme_nonempty: "with_scheme s \<noteq> []"
  by (auto simp: with_scheme_def)

lemma mobile_src_nonempty: "mobile_src capture \<noteq> []"
  unfolding mobile_src_def by (rule replace_first_nonempty) (simp_all add: with_scheme_nonempty)

lemma assign_result_settled: "settled vars (assign_result vars result)"
  by (auto simp: settled_def assign_result_def split: option.splits)

lemma strategy1_settled: "settled (fst st) (fst (fst (strategy1 L W vid st)))"
  using assign_result_settled
  by (auto simp: strategy1_def Let_def settled_def split: option.splits sum.splits)

lemma try_json_patterns_settled: "settled vars (try_json_patterns L ps content vars)"
  by (induction ps) (auto simp: settled_def split: option.splits sum.splits)

lemma router_script_settled: "settled vars (router_script L vars el)"
  using try_json_patterns_settled[of vars L "[match_router_data L, match_next_f L]" "str_or el []"]
  by (auto simp: router_script_def settled_def simp del: try_json_patterns.simps)

lemma settled_trans: "settled a b \<Longrightarrow> settled b c \<Longrightarrow> (truthy (videoSrc b) \<Longrightarrow> c = b) \<Longrightarrow> settled a c"
  by (auto simp: settled_def)

lemma foldl_router_found: "truthy (videoSrc vars) \<Longrightarrow> foldl (router_script L) vars els = vars"
  by (induction els) (auto simp: router_script_def)

lemma foldl_router_settled: "settled vars (foldl (router_script L) vars els)"
proof (induction els arbitrary: vars)
  case Nil
  then show ?case by (simp add: settled_def)
next
  case (Cons el els)
  show ?case
    using router_script_settled[of vars L el] Cons[of "router_script L vars el"]
      foldl_router_found[of "router_script L vars el" L els]
    by (auto simp: settled_def)
qed

lemma render_data_step_settled: "render_data_step L d vars = Inr vars1 \<Longrightarrow> settled vars vars1"
  using assign_result_settled
  by (auto simp: render_data_step_def settled_def split: option.splits sum.splits)

lemma strategy2_settled: "settled (fst st) (fst (fst (strategy2 L W vid st)))"
proof -
  have "settled (fst st) (foldl (router_script L) vars1 (scripts d))"
    if "render_data_step L d (fst st) = Inr vars1" for d vars1
    using render_data_step_settled[OF that] foldl_router_settled[of vars1 L "scripts d"]
      foldl_router_found[of vars1 L "scripts d"]
    by (auto simp: settled_def)
  then show ?thesis
    using render_data_step_settled
    by (auto simp: strategy2_def Let_def split: option.splits sum.splits)
qed

lemma mobile_script_settled: "settled vars (mobile_script L vars el)"
  by (auto simp: mobile_script_def settled_def Let_def truthy_def mobile_src_nonempty
           split: option.splits)

lemma foldl_mobile_found: "truthy (videoSrc vars) \<Longrightarrow> foldl (mobile_script L) vars els = vars"
  by (induction els) (auto simp: mobile_script_def)

lemma foldl_mobile_settled: "settled vars (foldl (mobile_script L) vars els)"
proof (induction els arbitrary: vars)
  case Nil
  then show ?case by (simp add: settled_def)
next
  case (Cons el els)
  show ?case
    using mobile_script_settled[of vars L el] Cons[of "mobile_script L vars el"]
      foldl_mobile_found[of "mobile_script L vars el" L els]
    by (auto simp: settled_def)
qed

lemma strategy3_settled:
  assumes "fst st = init_vars"
  shows "settled init_vars (fst (fst (strategy3 L W vid st)))"
proof -
  have a: "settled init_vars (foldl (mobile_script L) init_vars els)" for els
    by (rule foldl_mobile_settled)
  have b: "settled init_vars ((foldl (mobile_script L) init_vars els)\<lparr>videoSrc := JStr m\<rparr>)"
    if "\<not> truthy (videoSrc (foldl (mobile_script L) init_vars els))" for els m
  proof -
    from a[of els] that have "foldl (mobile_script L) init_vars els = init_vars"
      by (auto simp: settled_def)
    then show ?thesis
      by (cases "m = []") (auto simp: settled_def init_vars_def truthy_def)
  qed
  show ?thesis
    using a b assms
    by (auto simp: strategy3_def Let_def split: option.splits jsval.splits)
qed

lemma unwatermark_truthy: "truthy v \<Longrightarrow> unwatermark v = Inr src \<Longrightarrow> truthy src"
  by (auto simp: unwatermark_def truthy_def replace_first_nonempty split: jsval.splits)

lemma strategy4_settled: "settled (fst st) (fst (fst (strategy4 L W vid st)))"
  by (auto simp: strategy4_def Let_def settled_def dest: unwatermark_truthy
           split: option.splits sum.splits bool.splits)

lemma strategy5_settled: "settled (fst st) (fst (fst (strategy5 L W vid st)))"
  by (auto simp: strategy5_def Let_def settled_def truthy_def split: option.splits)

lemma strategies_settled:
  assumes "k < 5" and "fst st = init_vars"
  shows "settled init_vars (fst (fst ((strategies L W vid ! k) st)))"
proof -
  from assms(1) consider "k = 0" | "k = 1" | "k = 2" | "k = 3" | "k = 4" by linarith
  then show ?thesis
    using strategy1_settled[of st L W vid] strategy2_settled[of st L W vid]
      strategy3_settled[OF assms(2), of L W vid] strategy4_settled[of st L W vid]
      strategy5_settled[of st L W vid] assms(2)
    by cases (simp_all add: strategies_def)
qed

text \<open>The log: every strategy issues exactly one request.\<close>

lemma strategies_log:
  assumes "k < 5"
  shows "snd (fst ((strategies L W vid ! k) st)) = snd st @ [strategy_requests vid ! k]"
proof -
  from assms(1) consider "k = 0" | "k = 1" | "k = 2" | "k = 3" | "k = 4" by linarith
  then show ?thesis
  proof cases
    case 1
    then show ?thesis
      by (auto simp: strategies_def strategy_requests_def strategy1_def Let_def
               split: option.splits sum.splits)
  next
    case 2
    then show ?thesis
      by (auto simp: strategies_def strategy_requests_def strategy2_def Let_def
               split: option.splits sum.splits)
  next
    case 3
    then show ?thesis
      by (auto simp: strategies_def strategy_requests_def strategy3_def Let_def
               split: option.splits sum.splits jsval.splits)
  next
    case 4
    then show ?thesis
      by (auto simp: strategies_def strategy_requests_def strategy4_def Let_def
               split: option.splits sum.splits bool.splits)
  next
    case 5
    then show ?thesis
      by (auto simp: strategies_def strategy_requests_def strategy5_def Let_def
               split: option.splits)
  qed
qed

lemma run_strategies_foldl:
  "run_strategies L W vid lg
     = foldl (\<lambda>st strategy. unless_found strategy st) (init_vars, lg) (strategies L W vid)"
  by (simp add: run_strategies_def strategies_def Let_def unless_found_def init_vars_def
        truthy_def)

lemma length_strategies [simp]: "length (strategies L W vid) = 5"
  by (simp add: strategies_def)

lemma length_strategy_requests [simp]: "length (strategy_requests vid) = 5"
  by (simp add: strategy_requests_def)

lemma progress_take:
  "k \<le> 5 \<Longrightarrow>
   progress L W vid lg k
     (foldl (\<lambda>st strategy. unless_found strategy st) (init_vars, lg)
        (take k (strategies L W vid)))"
proof (induction k)
  case 0
  then show ?case by (simp add: progress_def)
next
  case (Suc k)
  let ?st = "foldl (\<lambda>st strategy. unless_found strategy st) (init_vars, lg)
               (take k (strategies L W vid))"
  from Suc have k: "k < 5" and IH: "progress L W vid lg k ?st" by simp_all
  have step: "foldl (\<lambda>st strategy. unless_found strategy st) (init_vars, lg)
               (take (Suc k) (strategies L W vid))
              = unless_found (strategies L W vid ! k) ?st"
    using k by (simp add: take_Suc_conv_app_nth)
  show ?case
  proof (cases "truthy (videoSrc (fst ?st))")
    case True
    then have "unless_found (strategies L W vid ! k) ?st = ?st" by (simp add: unless_found_def)
    moreover from True IH have "progress L W vid lg (Suc k) ?st"
      by (auto simp: progress_def init_vars_def truthy_def intro: less_SucI)
    ultimately show ?thesis unfolding step by simp
  next
    case False
    with IH have st: "fst ?st = init_vars" "snd ?st = lg @ take k (strategy_requests vid)"
      and earlier: "\<forall>i<k. \<not> truthy (videoSrc (outcome L W vid lg i))"
      by (auto simp: progress_def)
    then have st': "?st = (init_vars, lg @ take k (strategy_requests vid))"
      by (metis prod.collapse)
    let ?out = "fst ((strategies L W vid ! k) ?st)"
    have u: "unless_found (strategies L W vid ! k) ?st = ?out"
      using False by (simp add: unless_found_def)
    have lg: "snd ?out = lg @ take (Suc k) (strategy_requests vid)"
      using strategies_log[OF k, of L W vid ?st] st(2) k by (simp add: take_Suc_conv_app_nth)
    have out: "fst ?out = outcome L W vid lg k"
      using st' by (simp add: outcome_def)
    from strategies_settled[OF k st(1), of L W vid]
    have "fst ?out = init_vars \<or> truthy (videoSrc (fst ?out))" by (simp add: settled_def)
    then have "progress L W vid lg (Suc k) ?out"
    proof
      assume i: "fst ?out = init_vars"
      then have "\<not> truthy (videoSrc (outcome L W vid lg k))"
        unfolding out[symmetric] by (simp add: init_vars_def truthy_def)
      with earlier have "\<forall>i<Suc k. \<not> truthy (videoSrc (outcome L W vid lg i))"
        by (auto simp: less_Suc_eq)
      with i lg show ?thesis by (simp add: progress_def)
    next
      assume t: "truthy (videoSrc (fst ?out))"
      with out lg earlier show ?thesis unfolding progress_def by blast
    qed
    then show ?thesis unfolding step u .
  qed
qed

lemma run_strategies_progress: "progress L W vid lg 5 (run_strategies L W vid lg)"
  using progress_take[of 5 L W vid lg] by (simp add: run_strategies_foldl)

lemma strategies_fault_keeps:
  assumes "k < 5" and "snd ((strategies L W vid ! k) st) = Some e"
  shows "fst (fst ((strategies L W vid ! k) st)) = fst st"
proof -
  from assms(1) consider "k = 0" | "k = 1" | "k = 2" | "k = 3" | "k = 4" by linarith
  then show ?thesis
  proof cases
    case 1
    with assms(2) show ?thesis
      by (auto simp: strategies_def strategy1_def Let_def split: option.splits sum.splits if_splits)
  next
    case 2
    with assms(2) show ?thesis
      by (auto simp: strategies_def strategy2_def Let_def split: option.splits sum.splits if_splits)
  next
    case 3
    have "foldl (mobile_script L) (fst st) els = fst st"
      if "\<not> truthy (videoSrc (foldl (mobile_script L) (fst st) els))" for els
      using foldl_mobile_settled[of "fst st" L els] that by (auto simp: settled_def)
    with 3 assms(2) show ?thesis
      by (auto simp: strategies_def strategy3_def Let_def
               split: option.splits sum.splits if_splits jsval.splits)
  next
    case 4
    with assms(2) show ?thesis
      by (auto simp: strategies_def strategy4_def Let_def
               split: option.splits sum.splits if_splits bool.splits)
  next
    case 5
    with assms(2) show ?thesis
      by (auto simp: strategies_def strategy5_def Let_def split: option.splits if_splits)
  qed
qed

lemma respond_cases:
  "respond vars = AllFailed200 \<longleftrightarrow> \<not> truthy (videoSrc vars)"
  "respond vars = Unhandled500 e \<longleftrightarrow>
     truthy (videoSrc vars) \<and> (\<forall>s. videoSrc vars \<noteq> JStr s) \<and> e = TypeError"
  "respond vars = Success200 p \<longleftrightarrow>
     (\<exists>src. videoSrc vars = JStr src \<and> src \<noteq> [] \<and>
        p = \<lparr>data_url = JStr (normalizeVideoUrl src), data_cover = coverSrc vars,
             data_desc = js_or (desc vars) (JStr DEFAULT_DESC)\<rparr>)"
  "respond vars \<noteq> UrlRequired400" "respond vars \<noteq> NoVideoId400"
  by (auto simp: respond_def truthy_def split: jsval.splits)

lemma parse_handler_resolved:
  assumes "get_prop body ''url'' = Inr (JStr text)" and "text \<noteq> []"
    and "resolveShortUrl L W (target_url L text) lg = (Inr r, lg1)" and "videoId r = Some vid"
  shows "parse_handler L W body lg
         = (respond (fst (run_strategies L W vid lg1)), snd (run_strategies L W vid lg1))"
  using assms by (simp add: parse_handler_def Let_def truthy_def)

lemma parse_handler_success:
  assumes "fst (parse_handler L W body lg) = Success200 p"
  shows "\<exists>text r lg1 vid. get_prop body ''url'' = Inr (JStr text) \<and> text \<noteq> [] \<and>
           resolveShortUrl L W (target_url L text) lg = (Inr r, lg1) \<and> videoId r = Some vid \<and>
           respond (fst (run_strategies L W vid lg1)) = Success200 p"
  using assms
  by (auto simp: parse_handler_def Let_def truthy_def
           split: sum.splits if_splits jsval.splits prod.splits option.splits)

lemma all_failed_answer:
  assumes "get_prop body ''url'' = Inr (JStr text)" and "text \<noteq> []"
    and "resolveShortUrl L W (target_url L text) lg = (Inr r, lg1)" and "videoId r = Some vid"
    and fail: "\<And>i. i < 5 \<Longrightarrow> \<not> truthy (videoSrc (outcome L W vid lg1 i))"
  shows "parse_handler L W body lg = (AllFailed200, lg1 @ strategy_requests vid)"
proof -
  from run_strategies_progress[of L W vid lg1] fail
  have "fst (run_strategies L W vid lg1) = init_vars"
    and "snd (run_strategies L W vid lg1) = lg1 @ strategy_requests vid"
    by (auto simp: progress_def)
  then show ?thesis
    unfolding parse_handler_resolved[OF assms(1-4)]
    by (simp add: respond_cases init_vars_def truthy_def)
qed

lemma parse_handler_UrlRequired:
  "fst (parse_handler L W body lg) = UrlRequired400 \<longleftrightarrow>
     (\<exists>url. get_prop body ''url'' = Inr url \<and> \<not> truthy url)"
  by (auto simp: parse_handler_def Let_def respond_cases
           split: sum.splits if_splits jsval.splits prod.splits option.splits)

lemma parse_handler_NoVideoId:
  "fst (parse_handler L W body lg) = NoVideoId400 \<longleftrightarrow>
     (\<exists>text r lg1. get_prop body ''url'' = Inr (JStr text) \<and> text \<noteq> [] \<and>
        resolveShortUrl L W (target_url L text) lg = (Inr r, lg1) \<and> videoId r = None)"
  by (auto simp: parse_handler_def Let_def respond_cases truthy_def
           split: sum.splits if_splits jsval.splits prod.splits option.splits)

lemma parse_handler_AllFailed:
  "fst (parse_handler L W body lg) = AllFailed200 \<longleftrightarrow>
     (\<exists>text r lg1 vid. get_prop body ''url'' = Inr (JStr text) \<and> text \<noteq> [] \<and>
        resolveShortUrl L W (target_url L text) lg = (Inr r, lg1) \<and> videoId r = Some vid \<and>
        \<not> truthy (videoSrc (fst (run_strategies L W vid lg1))))"
  by (auto simp: parse_handler_def Let_def respond_cases(1,4,5) truthy_def[of "JStr _"]
           split: sum.splits if_splits jsval.splits prod.splits option.splits)

lemma parse_handler_Unhandled:
  "fst (parse_handler L W body lg) = Unhandled500 e \<longleftrightarrow>
     (get_prop body ''url'' = Inl e \<or>
      (\<exists>url. get_prop body ''url'' = Inr url \<and> truthy url \<and> (\<forall>s. url \<noteq> JStr s) \<and>
         e = TypeError) \<or>
      (\<exists>text lg1. get_prop body ''url'' = Inr (JStr text) \<and> text \<noteq> [] \<and>
         resolveShortUrl L W (target_url L text) lg = (Inl e, lg1)) \<or>
      (\<exists>text r lg1 vid. get_prop body ''url'' = Inr (JStr text) \<and> text \<noteq> [] \<and>
         resolveShortUrl L W (target_url L text) lg = (Inr r, lg1) \<and> videoId r = Some vid \<and>
         truthy (videoSrc (fst (run_strategies L W vid lg1))) \<and>
         (\<forall>s. videoSrc (fst (run_strategies L W vid lg1)) \<noteq> JStr s) \<and> e = TypeError))"
  by (auto simp: parse_handler_def Let_def respond_cases(2,4,5) truthy_def[of "JStr _"]
           split: sum.splits if_splits jsval.splits prod.splits option.splits)

lemma all_faulted_answer:
  assumes "get_prop body ''url'' = Inr (JStr text)" and "text \<noteq> []"
    and "resolveShortUrl L W (target_url L text) lg = (Inr r, lg1)" and "videoId r = Some vid"
    and fault: "\<forall>j<5. snd ((strategies L W vid ! j)
                   (init_vars, lg1 @ take j (strategy_requests vid))) \<noteq> None"
  shows "parse_handler L W body lg = (AllFailed200, lg1 @ strategy_requests vid)"
proof (rule all_failed_answer[OF assms(1-4)])
  fix i :: nat
  assume i: "i < 5"
  with fault obtain e where
    "snd ((strategies L W vid ! i) (init_vars, lg1 @ take i (strategy_requests vid))) = Some e"
    by auto
  from strategies_fault_keeps[OF i this]
  show "\<not> truthy (videoSrc (outcome L W vid lg1 i))"
    by (simp add: outcome_def init_vars_def truthy_def)
qed

lemma strategies_world_down:
  "k < 5 \<Longrightarrow> (strategies L W vid ! k) (vars, lg')
      = ((vars, lg' @ [strategy_requests vid ! k]), Some AxiosError)"
  if "http_get W = (\<lambda>lg rq. None)" "http_head W = (\<lambda>lg url. None)"
proof -
  assume "k < 5"
  then consider "k = 0" | "k = 1" | "k = 2" | "k = 3" | "k = 4" by linarith
  then show ?thesis
    by cases
       (simp_all add: strategies_def strategy_requests_def strategy1_def strategy2_def
          strategy3_def strategy4_def strategy5_def Let_def that)
qed

text \<open>
  C1, as the code has it. When an identifier was obtained and every strategy fails to
  produce a media URL, the handler of server.ts has run each of the five strategies
  once, in order, and answers with the explicit failure \<^verbatim>\<open>{success: false, error}\<close>;
  it has no placeholder record and no \<^verbatim>\<open>isDemo\<close> flag.
\<close>

theorem all_strategies_failed:
  assumes "get_prop body ''url'' = Inr (JStr text)" and "text \<noteq> []"
    and "resolveShortUrl L W (target_url L text) lg = (Inr r, lg1)" and "videoId r = Some vid"
    and "\<And>i. i < 5 \<Longrightarrow> \<not> truthy (videoSrc (outcome L W vid lg1 i))"
  shows "parse_handler L W body lg = (AllFailed200, lg1 @ strategy_requests vid)"
  using assms by (rule all_failed_answer)

theorem all_strategies_failed_witness:
  "parse_handler lib0 world_down body_direct [] = (AllFailed200, strategy_requests ''7123456789'')"
proof -
  have 1: "get_prop body_direct ''url'' = Inr (JStr ''https://www.douyin.com/video/7123456789'')"
    by (simp add: eval_defs)
  have 2: "resolveShortUrl lib0 world_down
             (target_url lib0 ''https://www.douyin.com/video/7123456789'') []
           = (Inr \<lparr>finalUrl = ''https://www.douyin.com/video/7123456789'',
                    videoId = Some ''7123456789''\<rparr>, [])"
    by (simp add: eval_defs)
  have 3: "\<not> truthy (videoSrc (outcome lib0 world_down ''7123456789'' [] i))" if "i < 5" for i
    using strategies_world_down[OF _ _ that, of world_down lib0 "''7123456789''" init_vars]
    by (simp add: outcome_def world_down_def init_vars_def truthy_def)
  from all_strategies_failed[OF 1 _ 2 _ 3] show ?thesis by simp
qed

text \<open>
  C1 as the specification states it fails: an identifier is in the URL, no strategy
  finds a media URL, and the answer is the explicit failure, not a success outcome.
\<close>

theorem all_failed_is_not_success:
  "extractVideoId ''https://www.douyin.com/video/7123456789'' = Some ''7123456789'' \<and>
   fst (parse_handler lib0 world_useless body_direct []) = AllFailed200"
  by (simp add: eval_defs)

text \<open>
  C2. In every success outcome of the handler the media URL is a non-empty string:
  a success answer is sent only for a truthy \<^verbatim>\<open>videoSrc\<close>, a value that is no string
  makes \<^verbatim>\<open>normalizeVideoUrl\<close> throw (the answer is then the 500 of the outer \<^verbatim>\<open>catch\<close>),
  and normalising a non-empty string yields a non-empty string.
\<close>

theorem success_url_nonempty:
  "fst (parse_handler L W body lg) = Success200 p \<Longrightarrow> \<exists>s. data_url p = JStr s \<and> s \<noteq> []"
  by (auto simp: parse_handler_def Let_def respond_cases normalizeVideoUrl_nonempty
           split: sum.splits if_splits jsval.splits prod.splits option.splits)

theorem success_url_nonempty_witness:
  "\<exists>p s. fst (parse_handler lib0 world_head_ok body_direct []) = Success200 p \<and>
         data_url p = JStr s \<and> s \<noteq> []"
proof -
  have e: "fst (parse_handler lib0 world_head_ok body_direct [])
           = Success200 \<lparr>data_url = JStr (normalizeVideoUrl
                ''https://www.douyin.com/aweme/v1/play/?video_id=7123456789&ratio=720p&line=0''),
              data_cover = JStr [], data_desc = JStr DEFAULT_DESC\<rparr>"
    by (simp add: eval_defs)
  from success_url_nonempty[OF e] e show ?thesis by blast
qed

text \<open>
  C10. In every success outcome only the media URL went through \<^verbatim>\<open>normalizeVideoUrl\<close>.
  The answer comes from one strategy, run on the initial values of the three variables:
  the URL is the normalised \<^verbatim>\<open>videoSrc\<close> of that strategy, the cover is its \<^verbatim>\<open>coverSrc\<close>
  unchanged, and the description is its \<^verbatim>\<open>desc\<close>, or the placeholder text when that is
  falsy.
\<close>

theorem success_fields_from_winner:
  assumes "fst (parse_handler L W body lg) = Success200 p"
  shows "\<exists>text r lg1 vid j src.
           get_prop body ''url'' = Inr (JStr text) \<and>
           resolveShortUrl L W (target_url L text) lg = (Inr r, lg1) \<and> videoId r = Some vid \<and>
           j < 5 \<and> (\<forall>i<j. \<not> truthy (videoSrc (outcome L W vid lg1 i))) \<and>
           videoSrc (outcome L W vid lg1 j) = JStr src \<and> src \<noteq> [] \<and>
           data_url p = JStr (normalizeVideoUrl src) \<and>
           data_cover p = coverSrc (outcome L W vid lg1 j) \<and>
           data_desc p = js_or (desc (outcome L W vid lg1 j)) (JStr DEFAULT_DESC)"
proof -
  from parse_handler_success[OF assms] obtain pasted r lg1 vid where
    b: "get_prop body ''url'' = Inr (JStr pasted)"
      "resolveShortUrl L W (target_url L pasted) lg = (Inr r, lg1)" "videoId r = Some vid" and
    ok: "respond (fst (run_strategies L W vid lg1)) = Success200 p" by blast
  from ok obtain src where src: "videoSrc (fst (run_strategies L W vid lg1)) = JStr src" "src \<noteq> []"
    and p: "p = \<lparr>data_url = JStr (normalizeVideoUrl src),
                 data_cover = coverSrc (fst (run_strategies L W vid lg1)),
                 data_desc = js_or (desc (fst (run_strategies L W vid lg1))) (JStr DEFAULT_DESC)\<rparr>"
    unfolding respond_cases by blast
  from src run_strategies_progress[of L W vid lg1]
  obtain j where j: "j < 5" "fst (run_strategies L W vid lg1) = outcome L W vid lg1 j"
    "\<forall>i<j. \<not> truthy (videoSrc (outcome L W vid lg1 i))"
    by (auto simp: progress_def init_vars_def)
  from b j(1,3) src p show ?thesis
    unfolding j(2) by (intro exI[of _ pasted] exI[of _ r] exI[of _ lg1] exI[of _ vid]
        exI[of _ j] exI[of _ src]) simp
qed

theorem success_fields_from_winner_witness:
  "fst (parse_handler lib0 world_iteminfo body_direct [])
     = Success200 \<lparr>data_url = JStr ''https://www.douyin.com/aweme/v1/play/?video_id=1'',
                    data_cover = JStr ''https://aweme.snssdk.com/cover.jpg'',
                    data_desc = JStr DEFAULT_DESC\<rparr> \<and>
   coverSrc (outcome lib0 world_iteminfo ''7123456789'' [] 3)
     = JStr ''https://aweme.snssdk.com/cover.jpg'' \<and>
   (\<exists>text r lg1 vid j src.
      get_prop body_direct ''url'' = Inr (JStr text) \<and>
      resolveShortUrl lib0 world_iteminfo (target_url lib0 text) [] = (Inr r, lg1) \<and>
      videoId r = Some vid \<and> j < 5 \<and>
      (\<forall>i<j. \<not> truthy (videoSrc (outcome lib0 world_iteminfo vid lg1 i))) \<and>
      videoSrc (outcome lib0 world_iteminfo vid lg1 j) = JStr src \<and> src \<noteq> [] \<and>
      JStr ''https://www.douyin.com/aweme/v1/play/?video_id=1'' = JStr (normalizeVideoUrl src) \<and>
      JStr ''https://aweme.snssdk.com/cover.jpg'' = coverSrc (outcome lib0 world_iteminfo vid lg1 j) \<and>
      JStr DEFAULT_DESC = js_or (desc (outcome lib0 world_iteminfo vid lg1 j)) (JStr DEFAULT_DESC))"
proof -
  have e: "fst (parse_handler lib0 world_iteminfo body_direct [])
     = Success200 \<lparr>data_url = JStr ''https://www.douyin.com/aweme/v1/play/?video_id=1'',
                    data_cover = JStr ''https://aweme.snssdk.com/cover.jpg'',
                    data_desc = JStr DEFAULT_DESC\<rparr>"
    by (simp add: eval_defs normalizeVideoUrl_def DOMAIN_REPLACEMENTS_def replace_all.simps
          lit_def douyinvod_re_def)
  have c: "coverSrc (outcome lib0 world_iteminfo ''7123456789'' [] 3)
     = JStr ''https://aweme.snssdk.com/cover.jpg''"
    by (simp add: outcome_def strategies_def strategy_requests_def eval_defs)
  from success_fields_from_winner[OF e] e c show ?thesis by simp
qed

text \<open>
  C9, as the code has it. The handler sends an explicit error result in four kinds of
  cases, each characterised below: no \<^verbatim>\<open>url\<close> in the body (400), no identifier (400),
  every strategy without a media URL (\<^verbatim>\<open>success: false\<close>), and an exception outside the
  strategies (500: a body or \<^verbatim>\<open>url\<close> of the wrong type, \<^verbatim>\<open>resolveShortUrl\<close> throwing, a
  media URL that is no string). A fault inside a strategy is caught there: it leaves the
  three variables as they were, and even when every strategy faults the handler has
  issued the request of each of them and answers \<^verbatim>\<open>success: false\<close>, not 500.
\<close>

theorem error_results_classified:
  "(fst (parse_handler L W body lg) = UrlRequired400 \<longleftrightarrow>
     (\<exists>url. get_prop body ''url'' = Inr url \<and> \<not> truthy url)) \<and>
   (fst (parse_handler L W body lg) = NoVideoId400 \<longleftrightarrow>
     (\<exists>text r lg1. get_prop body ''url'' = Inr (JStr text) \<and> text \<noteq> [] \<and>
        resolveShortUrl L W (target_url L text) lg = (Inr r, lg1) \<and> videoId r = None)) \<and>
   (fst (parse_handler L W body lg) = AllFailed200 \<longleftrightarrow>
     (\<exists>text r lg1 vid. get_prop body ''url'' = Inr (JStr text) \<and> text \<noteq> [] \<and>
        resolveShortUrl L W (target_url L text) lg = (Inr r, lg1) \<and> videoId r = Some vid \<and>
        \<not> truthy (videoSrc (fst (run_strategies L W vid lg1))))) \<and>
   (fst (parse_handler L W body lg) = Unhandled500 e \<longleftrightarrow>
     (get_prop body ''url'' = Inl e \<or>
      (\<exists>url. get_prop body ''url'' = Inr url \<and> truthy url \<and> (\<forall>s. url \<noteq> JStr s) \<and>
         e = TypeError) \<or>
      (\<exists>text lg1. get_prop body ''url'' = Inr (JStr text) \<and> text \<noteq> [] \<and>
         resolveShortUrl L W (target_url L text) lg = (Inl e, lg1)) \<or>
      (\<exists>text r lg1 vid. get_prop body ''url'' = Inr (JStr text) \<and> text \<noteq> [] \<and>
         resolveShortUrl L W (target_url L text) lg = (Inr r, lg1) \<and> videoId r = Some vid \<and>
         truthy (videoSrc (fst (run_strategies L W vid lg1))) \<and>
         (\<forall>s. videoSrc (fst (run_strategies L W vid lg1)) \<noteq> JStr s) \<and> e = TypeError))) \<and>
   (k < 5 \<and> snd ((strategies L W v ! k) st) = Some fault
      \<longrightarrow> fst (fst ((strategies L W v ! k) st)) = fst st) \<and>
   (get_prop body ''url'' = Inr (JStr text') \<and> text' \<noteq> [] \<and>
    resolveShortUrl L W (target_url L text') lg = (Inr r', lg1') \<and> videoId r' = Some vid' \<and>
    (\<forall>j<5. snd ((strategies L W vid' ! j)
               (init_vars, lg1' @ take j (strategy_requests vid'))) \<noteq> None)
      \<longrightarrow> parse_handler L W body lg = (AllFailed200, lg1' @ strategy_requests vid'))"
  using parse_handler_UrlRequired[of L W body lg] parse_handler_NoVideoId[of L W body lg]
    parse_handler_AllFailed[of L W body lg] parse_handler_Unhandled[of L W body lg e]
    strategies_fault_keeps[of k L W v st fault]
    all_faulted_answer[of body text' L W lg r' lg1' vid']
  by blast

theorem error_results_classified_witness:
  "fst (fst ((strategies lib0 world_head_ok ''7123456789'' ! 0) (init_vars, []))) = init_vars \<and>
   parse_handler lib_url world_redirect body_short []
     = (AllFailed200, (ManualHop, ''https://v.douyin.com/abc/'') # strategy_requests ''7123456789'')"
proof
  have "(0::nat) < 5 \<and>
        snd ((strategies lib0 world_head_ok ''7123456789'' ! 0) (init_vars, [])) = Some AxiosError"
    by (simp add: strategies_def eval_defs)
  with error_results_classified[where k = 0 and L = lib0 and W = world_head_ok
      and v = "''7123456789''" and st = "(init_vars, [])" and fault = AxiosError]
  show "fst (fst ((strategies lib0 world_head_ok ''7123456789'' ! 0) (init_vars, []))) = init_vars"
    by simp
next
  have f: "\<forall>j<5. snd ((strategies lib_url world_redirect ''7123456789'' ! j)
             (init_vars, [(ManualHop, ''https://v.douyin.com/abc/'')]
                @ take j (strategy_requests ''7123456789''))) \<noteq> None"
    using strategies_world_down[of world_redirect _ lib_url "''7123456789''" init_vars]
    by (simp add: world_redirect_def world_down_def)
  have "get_prop body_short ''url'' = Inr (JStr ''look https://v.douyin.com/abc/ now'') \<and>
        ''look https://v.douyin.com/abc/ now'' \<noteq> [] \<and>
        resolveShortUrl lib_url world_redirect
          (target_url lib_url ''look https://v.douyin.com/abc/ now'') []
        = (Inr \<lparr>finalUrl = ''https://www.douyin.com/video/7123456789'',
                 videoId = Some ''7123456789''\<rparr>, [(ManualHop, ''https://v.douyin.com/abc/'')]) \<and>
        videoId \<lparr>finalUrl = ''https://www.douyin.com/video/7123456789'',
                 videoId = Some ''7123456789''\<rparr> = Some ''7123456789''"
    by (simp add: eval_defs eval_nat_numeral)
  with f error_results_classified[where L = lib_url and W = world_redirect
      and body = body_short and lg = "[]" and text' = "''look https://v.douyin.com/abc/ now''"
      and r' = "\<lparr>finalUrl = ''https://www.douyin.com/video/7123456789'',
                 videoId = Some ''7123456789''\<rparr>"
      and lg1' = "[(ManualHop, ''https://v.douyin.com/abc/'')]" and vid' = "''7123456789''"]
  show "parse_handler lib_url world_redirect body_short []
     = (AllFailed200, (ManualHop, ''https://v.douyin.com/abc/'') # strategy_requests ''7123456789'')"
    by simp
qed

text \<open>
  C9 as the specification states it fails: the body without a \<^verbatim>\<open>url\<close> and the short
  link whose identifier is found but whose strategies all fail are both answered with an
  explicit error result, and neither is the no-identifier case or an internal error.
\<close>

theorem error_result_outside_the_two_cases:
  "fst (parse_handler lib0 world_down (JObj []) []) = UrlRequired400 \<and>
   fst (resolveShortUrl lib_url world_redirect ''https://v.douyin.com/abc/'' [])
     = Inr \<lparr>finalUrl = ''https://www.douyin.com/video/7123456789'',
             videoId = Some ''7123456789''\<rparr> \<and>
   fst (parse_handler lib_url world_redirect body_short []) = AllFailed200"
  by (simp add: eval_defs eval_nat_numeral)

end
